theory Spec2Isabelle
  imports Complex_Main "HOL-Library.List_Lexorder" "HOL-Library.Char_ord"
begin

section \<open>Attendance backend: data model\<close>

text \<open>
  Identifiers (student, class, lecturer, session) are strings, as in the request bodies.
  A calendar date is the ISO string \<open>YYYY-MM-DD\<close> that
  \<^verbatim>\<open>new Date().toISOString().split('T')[0]\<close> produces; the store compares dates as
  strings, which is the lexicographic order on \<^typ>\<open>string\<close>. A JavaScript \<^verbatim>\<open>Date\<close> is
  its number of milliseconds since the epoch, an \<^typ>\<open>int\<close>; subtracting two dates gives the
  difference of these numbers.
\<close>

type_synonym ident = string
type_synonym isodate = string
type_synonym millis = int

text \<open>One document of the \<^verbatim>\<open>Attendance\<close> collection; \<open>aid\<close> is its \<^verbatim>\<open>_id\<close>.\<close>

record attendance =
  aid :: nat
  studentId :: ident
  classId :: ident
  lecturerId :: ident
  date :: isodate
  time :: string
  lastScanTime :: millis
  status :: string
  consecutiveLateCount :: nat
  capturedOffline :: bool
  sessionId :: ident
  remark :: "string option"

text \<open>One document of the \<^verbatim>\<open>AttendanceSession\<close> collection.\<close>

record session_doc =
  s_sessionId :: ident
  s_classId :: ident
  s_lecturerId :: ident
  startTime :: millis
  endTime :: "millis option"
  s_date :: isodate
  totalStudents :: nat
  s_status :: string
  presentCount :: nat
  absentCount :: nat
  lateCount :: nat

text \<open>A value of the in-memory \<^verbatim>\<open>activeSessions\<close> map.\<close>

record active_session =
  a_classId :: ident
  a_lecturerId :: ident
  a_date :: isodate
  createdAt :: millis

record audit_entry =
  actorUserId :: ident
  action :: string
  au_sessionId :: ident
  au_classId :: ident
  au_count :: nat

record user =
  uid :: ident
  role :: string

text \<open>
  The whole server state: the four collections the controller touches, the in-memory
  map (an association list, in insertion order as a JavaScript \<^verbatim>\<open>Map\<close>), and the
  counter from which the store draws fresh \<^verbatim>\<open>_id\<close>s. \<open>classes\<close> maps a class id to the
  \<^verbatim>\<open>lecturerId\<close> of the class document; \<open>students\<close> lists the class id of every student
  document.
\<close>

record server =
  attendances :: "attendance list"
  sessions :: "session_doc list"
  activeSessions :: "(ident \<times> active_session) list"
  auditLog :: "audit_entry list"
  classes :: "(ident \<times> ident) list"
  students :: "ident list"
  nextId :: nat

datatype 'a reply = Status400 string | Status403 string | Status404 string | Json 'a

text \<open>
  An optional string field of a request body. \<^verbatim>\<open>!x\<close> holds for a field that is missing
  and for the empty string.
\<close>

definition falsy :: "string option \<Rightarrow> bool" where
  "falsy x = (case x of None \<Rightarrow> True | Some s \<Rightarrow> s = [])"

section \<open>markAttendance\<close>

text \<open>One element of \<^verbatim>\<open>recognizedStudents\<close>.\<close>

record recognized =
  rq_studentId :: ident
  rq_status :: "string option"
  rq_time :: "string option"
  rq_capturedOffline :: "bool option"

text \<open>
  What the clock gives while one element is processed: \<^verbatim>\<open>new Date()\<close> in milliseconds and
  \<^verbatim>\<open>new Date().toTimeString().split(' ')[0]\<close>.
\<close>

record clock =
  nowMs :: millis
  nowTime :: string

definition LATE_THRESHOLD_MINUTES :: real where
  "LATE_THRESHOLD_MINUTES = 5"

definition MAX_CONSECUTIVE_LATE :: nat where
  "MAX_CONSECUTIVE_LATE = 3"

definition minutesLate :: "millis \<Rightarrow> millis \<Rightarrow> real" where
  "minutesLate currentTime sessionStartTime =
     real_of_int (currentTime - sessionStartTime) / (1000 * 60)"

definition isLate :: "millis \<Rightarrow> millis \<Rightarrow> bool" where
  "isLate currentTime sessionStartTime =
     (minutesLate currentTime sessionStartTime > LATE_THRESHOLD_MINUTES)"

text \<open>\<^verbatim>\<open>.sort({ date: -1 })\<close>: descending by date, documents of one date in stored order.\<close>

fun insertByDateDesc :: "attendance \<Rightarrow> attendance list \<Rightarrow> attendance list" where
  "insertByDateDesc a [] = [a]"
| "insertByDateDesc a (b # bs) =
     (if date b \<le> date a then a # b # bs else b # insertByDateDesc a bs)"

definition sortByDateDesc :: "attendance list \<Rightarrow> attendance list" where
  "sortByDateDesc xs = foldr insertByDateDesc xs []"

text \<open>
  \<^verbatim>\<open>Attendance.find({ studentId, classId, date: { $lt: today } })\<close>, before sorting and
  limiting.
\<close>

definition priorRecords :: "attendance list \<Rightarrow> ident \<Rightarrow> ident \<Rightarrow> isodate \<Rightarrow> attendance list" where
  "priorRecords coll sid cid today =
     filter (\<lambda>a. studentId a = sid \<and> classId a = cid \<and> date a < today) coll"

definition previousAttendances :: "attendance list \<Rightarrow> ident \<Rightarrow> ident \<Rightarrow> isodate \<Rightarrow> attendance list" where
  "previousAttendances coll sid cid today =
     take 3 (sortByDateDesc (priorRecords coll sid cid today))"

text \<open>The counting loop: one more for each late record, leaving at the first that is not.\<close>

fun countLeadingLate :: "attendance list \<Rightarrow> nat" where
  "countLeadingLate [] = 0"
| "countLeadingLate (a # as) =
     (if status a = ''late'' then Suc (countLeadingLate as) else 0)"

definition consecutiveLate :: "attendance list \<Rightarrow> ident \<Rightarrow> ident \<Rightarrow> isodate \<Rightarrow> nat" where
  "consecutiveLate coll sid cid today =
     countLeadingLate (previousAttendances coll sid cid today)"

text \<open>
  The cascade that fixes \<^verbatim>\<open>finalStatus\<close> and \<^verbatim>\<open>finalConsecutiveLateCount\<close> from the
  request's status, the lateness of the scan and the streak read from the store.
\<close>

definition resolveStatus :: "string option \<Rightarrow> bool \<Rightarrow> nat \<Rightarrow> string \<times> nat" where
  "resolveStatus st late c =
     (let finalStatus = (case st of None \<Rightarrow> ''present''
                          | Some s \<Rightarrow> if s = [] then ''present'' else s)
      in if falsy st then
           (if late then
              (if c + 1 \<ge> MAX_CONSECUTIVE_LATE then (''absent'', 0) else (''late'', c + 1))
            else (''present'', 0))
         else if st = Some ''present'' \<and> late then
           (if c + 1 \<ge> MAX_CONSECUTIVE_LATE then (''absent'', 0) else (''late'', c + 1))
         else if st = Some ''present'' \<and> \<not> late then (finalStatus, 0)
         else (finalStatus, c))"

text \<open>
  \<^verbatim>\<open>Attendance.findOneAndUpdate(filter, update, { upsert: true, new: true, runValidators: true })\<close>.
  The filter is the tuple (studentId, classId, date, sessionId). The first document that
  matches gets the fields of the update and keeps its \<^verbatim>\<open>_id\<close> and \<^verbatim>\<open>remark\<close>; when none
  matches, one document with these fields is inserted. The schema of the collection is
  not part of the controller: \<open>check\<close> stands for its validators and for any other failure
  of the store, and gives the error the call throws, if any; nothing is written then.
\<close>

datatype db_error = DuplicateKey | OtherError string

definition matchesKey :: "ident \<Rightarrow> ident \<Rightarrow> isodate \<Rightarrow> ident \<Rightarrow> attendance \<Rightarrow> bool" where
  "matchesKey sid cid d sess a =
     (studentId a = sid \<and> classId a = cid \<and> date a = d \<and> sessionId a = sess)"

definition setFields :: "attendance \<Rightarrow> attendance \<Rightarrow> attendance" where
  "setFields upd old = upd\<lparr>aid := aid old, remark := remark old\<rparr>"

fun updateFirst :: "(attendance \<Rightarrow> bool) \<Rightarrow> (attendance \<Rightarrow> attendance) \<Rightarrow> attendance list \<Rightarrow> attendance list" where
  "updateFirst p f [] = []"
| "updateFirst p f (a # as) = (if p a then f a # as else a # updateFirst p f as)"

definition findOneAndUpdate ::
  "(attendance \<Rightarrow> db_error option) \<Rightarrow> server \<Rightarrow> attendance \<Rightarrow> db_error + (attendance \<times> server)" where
  "findOneAndUpdate check srv upd =
     (case check upd of
        Some e \<Rightarrow> Inl e
      | None \<Rightarrow>
         (let p = matchesKey (studentId upd) (classId upd) (date upd) (sessionId upd) in
          case find p (attendances srv) of
            Some old \<Rightarrow>
              Inr (setFields upd old,
                   srv\<lparr>attendances := updateFirst p (setFields upd) (attendances srv)\<rparr>)
          | None \<Rightarrow>
              (let doc = upd\<lparr>aid := nextId srv, remark := None\<rparr> in
               Inr (doc, srv\<lparr>attendances := attendances srv @ [doc],
                              nextId := Suc (nextId srv)\<rparr>))))"

text \<open>One entry of the \<^verbatim>\<open>results\<close> array.\<close>

datatype mark_result =
    Saved ident nat bool string nat
  | Duplicate ident
  | Failed ident string

text \<open>
  The body of the loop over \<^verbatim>\<open>recognizedStudents\<close>, for one element: first the update
  document it builds, then the upsert and the entry pushed to \<^verbatim>\<open>results\<close>.
\<close>

definition scanUpdate ::
  "user \<Rightarrow> ident \<Rightarrow> ident \<Rightarrow> isodate \<Rightarrow> millis \<Rightarrow> server \<Rightarrow> recognized \<times> clock \<Rightarrow> attendance" where
  "scanUpdate usr sess cid today start srv rc =
     (let r = fst rc; clk = snd rc;
          late = isLate (nowMs clk) start;
          c = consecutiveLate (attendances srv) (rq_studentId r) cid today;
          fin = resolveStatus (rq_status r) late c
      in \<lparr>aid = 0, studentId = rq_studentId r, classId = cid, lecturerId = uid usr,
          date = today,
          time = (case rq_time r of None \<Rightarrow> nowTime clk
                  | Some t \<Rightarrow> if t = [] then nowTime clk else t),
          lastScanTime = nowMs clk, status = fst fin,
          consecutiveLateCount = snd fin,
          capturedOffline = (case rq_capturedOffline r of None \<Rightarrow> False | Some b \<Rightarrow> b),
          sessionId = sess, remark = None\<rparr>)"

definition markOne ::
  "(attendance \<Rightarrow> db_error option) \<Rightarrow> user \<Rightarrow> ident \<Rightarrow> ident \<Rightarrow> isodate \<Rightarrow> millis
     \<Rightarrow> server \<Rightarrow> recognized \<times> clock \<Rightarrow> mark_result \<times> server" where
  "markOne check usr sess cid today start srv rc =
     (let upd = scanUpdate usr sess cid today start srv rc in
      case findOneAndUpdate check srv upd of
        Inr (doc, srv') \<Rightarrow>
          (Saved (studentId upd) (aid doc) (isLate (nowMs (snd rc)) start)
             (status upd) (consecutiveLateCount upd), srv')
      | Inl DuplicateKey \<Rightarrow> (Duplicate (studentId upd), srv)
      | Inl (OtherError m) \<Rightarrow> (Failed (studentId upd) m, srv))"

fun markAll ::
  "(attendance \<Rightarrow> db_error option) \<Rightarrow> user \<Rightarrow> ident \<Rightarrow> ident \<Rightarrow> isodate \<Rightarrow> millis
     \<Rightarrow> server \<Rightarrow> (recognized \<times> clock) list \<Rightarrow> mark_result list \<times> server" where
  "markAll check usr sess cid today start srv [] = ([], srv)"
| "markAll check usr sess cid today start srv (rc # rcs) =
     (let (res, srv1) = markOne check usr sess cid today start srv rc;
          (ress, srv2) = markAll check usr sess cid today start srv1 rcs
      in (res # ress, srv2))"

text \<open>
  The request body: \<open>recognizedStudents\<close> is \<open>None\<close> when the field is not an array, and
  each element comes with the clock readings of its iteration; \<open>today\<close> is the date read
  once at the start of the call.
\<close>

record mark_request =
  m_sessionId :: "string option"
  m_classId :: "string option"
  recognizedStudents :: "(recognized \<times> clock) list option"
  m_today :: isodate

definition markAttendance ::
  "(attendance \<Rightarrow> db_error option) \<Rightarrow> user \<Rightarrow> server \<Rightarrow> mark_request
     \<Rightarrow> mark_result list reply \<times> server" where
  "markAttendance check usr srv rq =
     (if falsy (m_sessionId rq) \<or> falsy (m_classId rq) \<or> recognizedStudents rq = None
      then (Status400 ''Invalid request data'', srv)
      else
        let sess = the (m_sessionId rq); cid = the (m_classId rq);
            rcs = the (recognizedStudents rq) in
        case map_of (activeSessions srv) sess of
          None \<Rightarrow> (Status404 ''Session not found or expired'', srv)
        | Some session \<Rightarrow>
           (case find (\<lambda>d. s_sessionId d = sess) (sessions srv) of
              None \<Rightarrow> (Status404 ''Session document not found'', srv)
            | Some sessionDoc \<Rightarrow>
               (let (results, srv1) =
                      markAll check usr sess cid (m_today rq) (startTime sessionDoc) srv rcs;
                    entry = \<lparr>actorUserId = uid usr, action = ''MARK_ATTENDANCE'',
                             au_sessionId = sess, au_classId = cid, au_count = length rcs\<rparr>
                in (Json results, srv1\<lparr>auditLog := auditLog srv1 @ [entry]\<rparr>))))"

section \<open>startSession and endSession\<close>

text \<open>
  \<open>sid\<close> is the identifier the call builds from the clock and the random generator, and
  \<open>today\<close> and \<open>now\<close> its two readings of the clock.
\<close>

record start_reply =
  sr_sessionId :: ident
  sr_classId :: ident
  sr_date :: isodate
  sr_startTime :: millis

definition startSession ::
  "user \<Rightarrow> server \<Rightarrow> string option \<Rightarrow> ident \<Rightarrow> isodate \<Rightarrow> millis \<Rightarrow> start_reply reply \<times> server" where
  "startSession usr srv cidOpt sid today now =
     (if falsy cidOpt then (Status400 ''Class ID is required'', srv)
      else
        let cid = the cidOpt in
        case map_of (classes srv) cid of
          None \<Rightarrow> (Status404 ''Class not found'', srv)
        | Some owner \<Rightarrow>
            if role usr = ''lecturer'' \<and> owner \<noteq> uid usr
            then (Status403 ''Access denied to this class'', srv)
            else
              let total = length (filter (\<lambda>c. c = cid) (students srv));
                  doc = \<lparr>s_sessionId = sid, s_classId = cid, s_lecturerId = uid usr,
                         startTime = now, endTime = None, s_date = today,
                         totalStudents = total, s_status = ''active'',
                         presentCount = 0, absentCount = 0, lateCount = 0\<rparr>;
                  entry = \<lparr>a_classId = cid, a_lecturerId = uid usr, a_date = today,
                           createdAt = now\<rparr>
              in (Json \<lparr>sr_sessionId = sid, sr_classId = cid, sr_date = today,
                         sr_startTime = now\<rparr>,
                  srv\<lparr>sessions := sessions srv @ [doc],
                       activeSessions :=
                         (if map_of (activeSessions srv) sid = None
                          then activeSessions srv @ [(sid, entry)]
                          else map (\<lambda>(k, v). if k = sid then (k, entry) else (k, v))
                                 (activeSessions srv))\<rparr>))"

text \<open>
  The \<^verbatim>\<open>$match\<close>/\<^verbatim>\<open>$group\<close> aggregation of \<^verbatim>\<open>endSession\<close> followed by
  \<^verbatim>\<open>find((s) => s._id === st)?.count || 0\<close>: the number of records of the session with
  status \<open>st\<close>.
\<close>

definition countStatus :: "attendance list \<Rightarrow> ident \<Rightarrow> string \<Rightarrow> nat" where
  "countStatus coll sess st =
     length (filter (\<lambda>a. sessionId a = sess \<and> status a = st) coll)"

fun updateFirstSession ::
  "(session_doc \<Rightarrow> bool) \<Rightarrow> (session_doc \<Rightarrow> session_doc) \<Rightarrow> session_doc list \<Rightarrow> session_doc list" where
  "updateFirstSession p f [] = []"
| "updateFirstSession p f (d # ds) =
     (if p d then f d # ds else d # updateFirstSession p f ds)"

definition endSession ::
  "user \<Rightarrow> server \<Rightarrow> string option \<Rightarrow> millis \<Rightarrow> string reply \<times> server" where
  "endSession usr srv sidOpt now =
     (if falsy sidOpt then (Status400 ''Session ID is required'', srv)
      else
        let sid = the sidOpt in
        case map_of (activeSessions srv) sid of
          None \<Rightarrow> (Status404 ''Session not found'', srv)
        | Some session \<Rightarrow>
            if a_lecturerId session \<noteq> uid usr then (Status403 ''Access denied'', srv)
            else
              let finish = (\<lambda>d. d\<lparr>endTime := Some now,
                                   presentCount := countStatus (attendances srv) sid ''present'',
                                   absentCount := countStatus (attendances srv) sid ''absent'',
                                   lateCount := countStatus (attendances srv) sid ''late'',
                                   s_status := ''completed''\<rparr>);
                  entry = \<lparr>actorUserId = uid usr, action = ''END_SESSION'',
                           au_sessionId = sid, au_classId = a_classId session, au_count = 0\<rparr>
              in (Json ''Session ended successfully'',
                  srv\<lparr>sessions := updateFirstSession (\<lambda>d. s_sessionId d = sid) finish (sessions srv),
                       activeSessions := filter (\<lambda>(k, v). k \<noteq> sid) (activeSessions srv),
                       auditLog := auditLog srv @ [entry]\<rparr>))"

section \<open>manualOverride\<close>

text \<open>
  \<^verbatim>\<open>Attendance.findByIdAndUpdate(attendanceId, { status, remark }, ...)\<close>. A \<^verbatim>\<open>remark\<close>
  that the request leaves out is either dropped from the update or stored as null,
  depending on the version of the object mapper: \<open>omitUndefined\<close> says which.
\<close>

definition applyOverride :: "bool \<Rightarrow> string \<Rightarrow> string option \<Rightarrow> attendance \<Rightarrow> attendance" where
  "applyOverride omitUndefined st rm a =
     a\<lparr>status := st,
       remark := (case rm of Some r \<Rightarrow> Some r
                  | None \<Rightarrow> if omitUndefined then remark a else None)\<rparr>"

definition findByIdAndUpdate ::
  "bool \<Rightarrow> server \<Rightarrow> nat \<Rightarrow> string \<Rightarrow> string option \<Rightarrow> attendance option \<times> server" where
  "findByIdAndUpdate omitUndefined srv i st rm =
     (case find (\<lambda>a. aid a = i) (attendances srv) of
        None \<Rightarrow> (None, srv)
      | Some a \<Rightarrow>
          (Some (applyOverride omitUndefined st rm a),
           srv\<lparr>attendances :=
                 updateFirst (\<lambda>a. aid a = i) (applyOverride omitUndefined st rm) (attendances srv)\<rparr>))"

definition manualOverride ::
  "bool \<Rightarrow> user \<Rightarrow> server \<Rightarrow> nat option \<Rightarrow> string option \<Rightarrow> string option
     \<Rightarrow> attendance reply \<times> server" where
  "manualOverride omitUndefined usr srv attendanceId st rm =
     (if attendanceId = None \<or> falsy st
      then (Status400 ''Attendance ID and status are required'', srv)
      else if the st \<notin> set [''present'', ''absent'', ''late'', ''excused'']
      then (Status400 ''Invalid status'', srv)
      else
        case findByIdAndUpdate omitUndefined srv (the attendanceId) (the st) rm of
          (None, srv') \<Rightarrow> (Status404 ''Attendance record not found'', srv')
        | (Some a, srv') \<Rightarrow>
            if role usr = ''lecturer'' \<and> lecturerId a \<noteq> uid usr
            then (Status403 ''Access denied'', srv')
            else (Json a, srv'))"

section \<open>Notions used to state the properties of the backend\<close>

text \<open>The tuple on which the upsert of \<^const>\<open>markOne\<close> is keyed.\<close>

definition keyOf :: "attendance \<Rightarrow> ident \<times> ident \<times> isodate \<times> ident" where
  "keyOf a = (studentId a, classId a, date a, sessionId a)"

definition uniqueKeys :: "attendance list \<Rightarrow> bool" where
  "uniqueKeys coll = distinct (map keyOf coll)"

definition countKey :: "ident \<Rightarrow> ident \<Rightarrow> isodate \<Rightarrow> ident \<Rightarrow> attendance list \<Rightarrow> nat" where
  "countKey sid cid d sess coll = length (filter (matchesKey sid cid d sess) coll)"

text \<open>A sequence of \<^const>\<open>markAttendance\<close> calls, each by some user, one after the other.\<close>

fun markAttendances ::
  "(attendance \<Rightarrow> db_error option) \<Rightarrow> server \<Rightarrow> (user \<times> mark_request) list \<Rightarrow> server" where
  "markAttendances check srv [] = srv"
| "markAttendances check srv ((usr, rq) # rest) =
     markAttendances check (snd (markAttendance check usr srv rq)) rest"

text \<open>The records of earlier dates.\<close>

definition older :: "isodate \<Rightarrow> attendance list \<Rightarrow> attendance list" where
  "older today coll = filter (\<lambda>a. date a < today) coll"

text \<open>
  The streak as the specification words it: all records of the student in the class on
  earlier dates, most recent first, counted while they are late, with no bound on how
  many records are read.
\<close>

definition specStreak :: "attendance list \<Rightarrow> ident \<Rightarrow> ident \<Rightarrow> isodate \<Rightarrow> nat" where
  "specStreak coll sid cid today =
     length (takeWhile (\<lambda>a. status a = ''late'')
               (sortByDateDesc (priorRecords coll sid cid today)))"

text \<open>Ownership of a class: the user is the lecturer of the class document.\<close>

definition ownsClass :: "server \<Rightarrow> user \<Rightarrow> ident \<Rightarrow> bool" where
  "ownsClass srv usr cid = (map_of (classes srv) cid = Some (uid usr))"

subsection \<open>Concrete states and requests\<close>

definition accept :: "attendance \<Rightarrow> db_error option" where
  "accept a = None"

definition lecturer1 :: user where
  "lecturer1 = \<lparr>uid = ''L1'', role = ''lecturer''\<rparr>"

definition lecturer2 :: user where
  "lecturer2 = \<lparr>uid = ''L2'', role = ''lecturer''\<rparr>"

text \<open>
  A server on 2 May 2024 with one class of lecturer L1, one enrolled student and one
  active session that started at time 0.
\<close>

definition srv0 :: server where
  "srv0 = \<lparr>attendances = [],
           sessions = [\<lparr>s_sessionId = ''s1'', s_classId = ''c1'', s_lecturerId = ''L1'',
                        startTime = 0, endTime = None, s_date = ''2024-05-02'',
                        totalStudents = 1, s_status = ''active'',
                        presentCount = 0, absentCount = 0, lateCount = 0\<rparr>],
           activeSessions = [(''s1'', \<lparr>a_classId = ''c1'', a_lecturerId = ''L1'',
                                      a_date = ''2024-05-02'', createdAt = 0\<rparr>)],
           auditLog = [], classes = [(''c1'', ''L1'')], students = [''c1''], nextId = 0\<rparr>"

definition student1 :: recognized where
  "student1 = \<lparr>rq_studentId = ''st1'', rq_status = None, rq_time = None,
                rq_capturedOffline = None\<rparr>"

text \<open>Scans four and six minutes after the start of the session.\<close>

definition scan4 :: "recognized \<times> clock" where
  "scan4 = (student1, \<lparr>nowMs = 240000, nowTime = ''09:04:00''\<rparr>)"

definition scan6 :: "recognized \<times> clock" where
  "scan6 = (student1, \<lparr>nowMs = 360000, nowTime = ''09:06:00''\<rparr>)"

definition request4 :: mark_request where
  "request4 = \<lparr>m_sessionId = Some ''s1'', m_classId = Some ''c1'',
               recognizedStudents = Some [scan4], m_today = ''2024-05-02''\<rparr>"

text \<open>A record of student st1 in class c1, marked late by L1 on the given date.\<close>

definition lateOn :: "nat \<Rightarrow> isodate \<Rightarrow> attendance" where
  "lateOn i d = \<lparr>aid = i, studentId = ''st1'', classId = ''c1'', lecturerId = ''L1'',
                 date = d, time = ''09:10:00'', lastScanTime = 0, status = ''late'',
                 consecutiveLateCount = 1, capturedOffline = False, sessionId = ''old'',
                 remark = None\<rparr>"

definition history2 :: "attendance list" where
  "history2 = [lateOn 0 ''2024-04-30'', lateOn 1 ''2024-05-01'']"

definition history4 :: "attendance list" where
  "history4 = [lateOn 0 ''2024-04-28'', lateOn 1 ''2024-04-29'',
               lateOn 2 ''2024-04-30'', lateOn 3 ''2024-05-01'']"

text \<open>
  The class c1 has been given to lecturer L1 while its record 0 still carries L2, who
  marked it.
\<close>

definition srvReassigned :: server where
  "srvReassigned = srv0\<lparr>attendances := [(lateOn 0 ''2024-05-01'')\<lparr>lecturerId := ''L2''\<rparr>],
                        nextId := 1\<rparr>"

text \<open>The server after the scan at four minutes has been saved.\<close>

definition srv1 :: server where
  "srv1 = srv0\<lparr>attendances :=
                  [\<lparr>aid = 0, studentId = ''st1'', classId = ''c1'', lecturerId = ''L1'',
                    date = ''2024-05-02'', time = ''09:04:00'', lastScanTime = 240000,
                    status = ''present'', consecutiveLateCount = 0, capturedOffline = False,
                    sessionId = ''s1'', remark = None\<rparr>],
                nextId := 1\<rparr>"

text \<open>A server whose student st1 was late on the two days before.\<close>

definition srvLate2 :: server where
  "srvLate2 = srv0\<lparr>attendances := history2, nextId := 2\<rparr>"

section \<open>Liveness challenges: data model\<close>

text \<open>
  Landmark coordinates and everything computed from them are JavaScript numbers, that
  is, IEEE 754 binary64 values, and every operation on them rounds. The detectors are
  therefore written over a type \<open>'n\<close> of numbers whose arithmetic is given to them: the
  numeric literals of the program text (as they are written), the operations and the
  comparisons the code uses, and
  the test \<^verbatim>\<open>x || 1\<close> makes of a number (false for zero and for NaN). Whatever is proved
  for every such arithmetic holds for the arithmetic of the program.
\<close>

record 'n arith =
  n_lit :: "string \<Rightarrow> 'n"
  n_add :: "'n \<Rightarrow> 'n \<Rightarrow> 'n"
  n_sub :: "'n \<Rightarrow> 'n \<Rightarrow> 'n"
  n_mul :: "'n \<Rightarrow> 'n \<Rightarrow> 'n"
  n_div :: "'n \<Rightarrow> 'n \<Rightarrow> 'n"
  n_abs :: "'n \<Rightarrow> 'n"
  n_max :: "'n \<Rightarrow> 'n \<Rightarrow> 'n"
  n_hypot :: "'n \<Rightarrow> 'n \<Rightarrow> 'n"
  n_lt :: "'n \<Rightarrow> 'n \<Rightarrow> bool"
  n_gt :: "'n \<Rightarrow> 'n \<Rightarrow> bool"
  n_le :: "'n \<Rightarrow> 'n \<Rightarrow> bool"
  n_ge :: "'n \<Rightarrow> 'n \<Rightarrow> bool"
  n_falsy :: "'n \<Rightarrow> bool"

text \<open>A getter of the landmark object that gives no array is \<open>None\<close>.\<close>

record 'n point =
  px :: 'n
  py :: 'n

record 'n landmarks =
  getLeftEye :: "'n point list option"
  getRightEye :: "'n point list option"
  getNose :: "'n point list option"
  getMouth :: "'n point list option"
  positions :: "'n point list option"

record 'n box =
  b_x :: 'n
  b_y :: 'n
  b_width :: 'n
  b_height :: 'n

text \<open>What the landmark provider returns for a frame with a face.\<close>

record 'n detection =
  d_landmarks :: "'n landmarks option"
  d_box :: "'n box"

subsection \<open>Blink detection\<close>

definition EAR_OPEN_THRESHOLD :: "'n arith \<Rightarrow> 'n" where
  "EAR_OPEN_THRESHOLD A = n_lit A ''0.25''"

definition EAR_CLOSED_THRESHOLD :: "'n arith \<Rightarrow> 'n" where
  "EAR_CLOSED_THRESHOLD A = n_lit A ''0.18''"

definition BLINK_DEBOUNCE_FRAMES :: int where
  "BLINK_DEBOUNCE_FRAMES = 3"

definition calculateEAR :: "'n arith \<Rightarrow> 'n point list option \<Rightarrow> 'n" where
  "calculateEAR A eyePoints =
     (case eyePoints of
        None \<Rightarrow> n_lit A ''1''
      | Some ps \<Rightarrow>
          if length ps < 6 then n_lit A ''1''
          else
            let vertical1 = n_abs A (n_sub A (py (ps ! 1)) (py (ps ! 5)));
                vertical2 = n_abs A (n_sub A (py (ps ! 2)) (py (ps ! 4)));
                width = n_abs A (n_sub A (px (ps ! 0)) (px (ps ! 3)));
                horizontal = (if n_falsy A width then n_lit A ''1'' else width)
            in n_div A (n_add A vertical1 vertical2) (n_mul A (n_lit A ''2'') horizontal))"

definition avgEAR :: "'n arith \<Rightarrow> 'n landmarks \<Rightarrow> 'n" where
  "avgEAR A lm =
     n_div A (n_add A (calculateEAR A (getLeftEye lm)) (calculateEAR A (getRightEye lm)))
       (n_lit A ''2'')"

record blink_state =
  blinkCount :: nat
  wasClosed :: bool
  closedFrameCount :: nat
  lastBlinkFrame :: int

definition createBlinkDetector :: blink_state where
  "createBlinkDetector =
     \<lparr>blinkCount = 0, wasClosed = False, closedFrameCount = 0,
      lastBlinkFrame = - BLINK_DEBOUNCE_FRAMES - 1\<rparr>"

text \<open>\<^verbatim>\<open>update(landmarks, frameIndex)\<close>: the new state; it returns the new \<^verbatim>\<open>blinkCount\<close>.\<close>

definition blinkUpdate :: "'n arith \<Rightarrow> blink_state \<Rightarrow> 'n landmarks \<Rightarrow> int \<Rightarrow> blink_state" where
  "blinkUpdate A st lm frameIndex =
     (let ear = avgEAR A lm;
          isClosed = n_lt A ear (EAR_CLOSED_THRESHOLD A);
          isOpen = n_gt A ear (EAR_OPEN_THRESHOLD A)
      in if isClosed then
           st\<lparr>closedFrameCount := closedFrameCount st + 1, wasClosed := True\<rparr>
         else if isOpen \<and> wasClosed st then
           (let framesSinceLastBlink = frameIndex - lastBlinkFrame st;
                st1 = (if closedFrameCount st \<ge> 2 \<and> framesSinceLastBlink > BLINK_DEBOUNCE_FRAMES
                       then st\<lparr>blinkCount := blinkCount st + 1, lastBlinkFrame := frameIndex\<rparr>
                       else st)
            in st1\<lparr>wasClosed := False, closedFrameCount := 0\<rparr>)
         else if isOpen then
           st\<lparr>wasClosed := False, closedFrameCount := 0\<rparr>
         else st)"

text \<open>The detector fed a sequence of readings, each with its frame index.\<close>

fun blinkRun :: "'n arith \<Rightarrow> blink_state \<Rightarrow> ('n landmarks \<times> int) list \<Rightarrow> blink_state" where
  "blinkRun A st [] = st"
| "blinkRun A st ((lm, f) # frames) = blinkRun A (blinkUpdate A st lm f) frames"

subsection \<open>Head turn\<close>

definition HEAD_TURN_THRESHOLD_RATIO :: "'n arith \<Rightarrow> 'n" where
  "HEAD_TURN_THRESHOLD_RATIO A = n_lit A ''0.12''"

text \<open>\<^verbatim>\<open>nose[3] || nose[0]\<close>, for an array that is not empty.\<close>

definition noseTip :: "'n point list \<Rightarrow> 'n point" where
  "noseTip ns = (if 3 < length ns then ns ! 3 else ns ! 0)"

definition checkHeadTurnLeft :: "'n arith \<Rightarrow> 'n landmarks \<Rightarrow> 'n box \<Rightarrow> bool" where
  "checkHeadTurnLeft A lm faceBox =
     (case getNose lm of
        None \<Rightarrow> False
      | Some ns \<Rightarrow>
          if length ns = 0 then False
          else
            let noseX = px (noseTip ns);
                faceCenterX = n_add A (b_x faceBox) (n_div A (b_width faceBox) (n_lit A ''2''));
                threshold = n_max A (n_lit A ''30'')
                              (n_mul A (b_width faceBox) (HEAD_TURN_THRESHOLD_RATIO A));
                diff = n_sub A noseX faceCenterX
            in n_ge A diff threshold)"

subsection \<open>Smile\<close>

definition SMILE_EXPANSION_RATIO :: "'n arith \<Rightarrow> 'n" where
  "SMILE_EXPANSION_RATIO A = n_lit A ''1.15''"

definition MOUTH_CORNER_LEFT :: nat where
  "MOUTH_CORNER_LEFT = 0"

definition MOUTH_CORNER_RIGHT :: nat where
  "MOUTH_CORNER_RIGHT = 6"

definition widthFromPositions :: "'n arith \<Rightarrow> 'n landmarks \<Rightarrow> 'n option" where
  "widthFromPositions A lm =
     (case positions lm of
        None \<Rightarrow> None
      | Some ps \<Rightarrow>
          if length ps > 54
          then Some (n_hypot A (n_sub A (px (ps ! 54)) (px (ps ! 48)))
                               (n_sub A (py (ps ! 54)) (py (ps ! 48))))
          else None)"

definition getMouthWidth :: "'n arith \<Rightarrow> 'n landmarks \<Rightarrow> 'n option" where
  "getMouthWidth A lm =
     (case getMouth lm of
        None \<Rightarrow> widthFromPositions A lm
      | Some m \<Rightarrow>
          if length m \<ge> 7
          then Some (n_hypot A
                       (n_sub A (px (m ! MOUTH_CORNER_RIGHT)) (px (m ! MOUTH_CORNER_LEFT)))
                       (n_sub A (py (m ! MOUTH_CORNER_RIGHT)) (py (m ! MOUTH_CORNER_LEFT))))
          else widthFromPositions A lm)"

record 'n smile_state =
  neutralMouthWidth :: "'n option"

definition createSmileDetector :: "'n smile_state" where
  "createSmileDetector = \<lparr>neutralMouthWidth = None\<rparr>"

text \<open>\<^verbatim>\<open>update(landmarks)\<close>: what it returns, and the new state.\<close>

definition smileUpdate ::
  "'n arith \<Rightarrow> 'n smile_state \<Rightarrow> 'n landmarks \<Rightarrow> bool \<times> 'n smile_state" where
  "smileUpdate A st lm =
     (case getMouthWidth A lm of
        None \<Rightarrow> (False, st)
      | Some mouthWidth \<Rightarrow>
          (case neutralMouthWidth st of
             None \<Rightarrow> (False, st\<lparr>neutralMouthWidth := Some mouthWidth\<rparr>)
           | Some neutral \<Rightarrow>
               (let expansionRatio = n_div A mouthWidth neutral
                in (n_ge A expansionRatio (SMILE_EXPANSION_RATIO A), st))))"

text \<open>The detector fed a sequence of readings: what it returns on each of them.\<close>

fun smileRun :: "'n arith \<Rightarrow> 'n smile_state \<Rightarrow> 'n landmarks list \<Rightarrow> bool list" where
  "smileRun A st [] = []"
| "smileRun A st (lm # lms) =
     fst (smileUpdate A st lm) # smileRun A (snd (smileUpdate A st lm)) lms"

subsection \<open>The challenge runner\<close>

record challenge =
  c_id :: string
  c_type :: string
  c_label :: string
  requiredCount :: nat

definition CHALLENGES :: "challenge list" where
  "CHALLENGES =
     [\<lparr>c_id = ''blink'', c_type = ''blink'', c_label = ''Blink Twice'', requiredCount = 2\<rparr>,
      \<lparr>c_id = ''head_left'', c_type = ''head_left'', c_label = ''Turn Head Left'',
       requiredCount = 1\<rparr>,
      \<lparr>c_id = ''smile'', c_type = ''smile'', c_label = ''Smile'', requiredCount = 1\<rparr>]"

record run_result =
  passed :: bool
  progress :: nat
  required :: "nat option"

text \<open>The two detectors a runner owns; \<^verbatim>\<open>reset\<close> puts both back to their initial state.\<close>

record 'n runner =
  blinkDetector :: blink_state
  smileDetector :: "'n smile_state"

definition createChallengeRunner :: "'n runner" where
  "createChallengeRunner =
     \<lparr>blinkDetector = createBlinkDetector, smileDetector = createSmileDetector\<rparr>"

definition reset :: "'n runner \<Rightarrow> 'n runner" where
  "reset rn =
     rn\<lparr>blinkDetector :=
          \<lparr>blinkCount = 0, wasClosed = False, closedFrameCount = 0,
           lastBlinkFrame = - BLINK_DEBOUNCE_FRAMES - 1\<rparr>,
        smileDetector := (smileDetector rn)\<lparr>neutralMouthWidth := None\<rparr>\<rparr>"

text \<open>\<^verbatim>\<open>run(detection, frameIndex)\<close> of the runner made for \<open>challengeType\<close>.\<close>

definition run ::
  "'n arith \<Rightarrow> string \<Rightarrow> 'n runner \<Rightarrow> 'n detection \<Rightarrow> int \<Rightarrow> run_result \<times> 'n runner" where
  "run A challengeType rn det frameIndex =
     (case d_landmarks det of
        None \<Rightarrow> (\<lparr>passed = False, progress = 0, required = None\<rparr>, rn)
      | Some lm \<Rightarrow>
          if challengeType = ''blink'' then
            (let b = blinkUpdate A (blinkDetector rn) lm frameIndex;
                 req = (case find (\<lambda>c. c_type c = ''blink'') CHALLENGES of
                          Some c \<Rightarrow> requiredCount c | None \<Rightarrow> 2)
             in (\<lparr>passed = blinkCount b \<ge> req, progress = min (blinkCount b) req,
                  required = Some req\<rparr>,
                 rn\<lparr>blinkDetector := b\<rparr>))
          else if challengeType = ''head_left'' then
            (let p = checkHeadTurnLeft A lm (d_box det)
             in (\<lparr>passed = p, progress = (if p then 1 else 0), required = Some 1\<rparr>, rn))
          else if challengeType = ''smile'' then
            (let (p, s) = smileUpdate A (smileDetector rn) lm
             in (\<lparr>passed = p, progress = (if p then 1 else 0), required = Some 1\<rparr>,
                 rn\<lparr>smileDetector := s\<rparr>))
          else (\<lparr>passed = False, progress = 0, required = Some 1\<rparr>, rn))"

section \<open>Notions used to state the properties of the detectors\<close>

text \<open>
  A reading is closed when its average EAR is below the literal 0.18, and open when it
  is not closed and above the literal 0.25, in the arithmetic of the program.
\<close>

definition closedReading :: "'n arith \<Rightarrow> 'n \<Rightarrow> bool" where
  "closedReading A e = n_lt A e (n_lit A ''0.18'')"

definition openReading :: "'n arith \<Rightarrow> 'n \<Rightarrow> bool" where
  "openReading A e = (\<not> n_lt A e (n_lit A ''0.18'') \<and> n_gt A e (n_lit A ''0.25''))"

text \<open>
  The number of closed readings since the last open one, in a history of average EARs
  given most recent first. Readings that are neither are passed over.
\<close>

fun closedSinceOpen :: "'n arith \<Rightarrow> 'n list \<Rightarrow> nat" where
  "closedSinceOpen A [] = 0"
| "closedSinceOpen A (e # es) =
     (if closedReading A e then Suc (closedSinceOpen A es)
      else if openReading A e then 0
      else closedSinceOpen A es)"

definition earHistory :: "'n arith \<Rightarrow> ('n landmarks \<times> int) list \<Rightarrow> 'n list" where
  "earHistory A frames = rev (map (\<lambda>(lm, f). avgEAR A lm) frames)"

text \<open>The frame indices at which the detector counts a blink, in a sequence of readings.\<close>

fun blinkFrames :: "'n arith \<Rightarrow> blink_state \<Rightarrow> ('n landmarks \<times> int) list \<Rightarrow> int list" where
  "blinkFrames A st [] = []"
| "blinkFrames A st ((lm, f) # frames) =
     (if blinkCount (blinkUpdate A st lm f) = blinkCount st + 1
      then f # blinkFrames A (blinkUpdate A st lm f) frames
      else blinkFrames A (blinkUpdate A st lm f) frames)"

text \<open>Every frame of the list is more than three frames after the one before it.\<close>

fun spaced :: "int \<Rightarrow> int list \<Rightarrow> bool" where
  "spaced l [] = True"
| "spaced l (f # fs) = (f - l > 3 \<and> spaced f fs)"

text \<open>
  The detector as the specification words it: closed at an average EAR of at most 0.18,
  open at one of at least 0.25, and a blink counted when at least 3 frames have elapsed
  since the blink counted before.
\<close>

definition specBlinkUpdate ::
  "'n arith \<Rightarrow> blink_state \<Rightarrow> 'n landmarks \<Rightarrow> int \<Rightarrow> blink_state" where
  "specBlinkUpdate A st lm frameIndex =
     (let ear = avgEAR A lm;
          isClosed = n_le A ear (n_lit A ''0.18'');
          isOpen = n_ge A ear (n_lit A ''0.25'')
      in if isClosed then
           st\<lparr>closedFrameCount := closedFrameCount st + 1, wasClosed := True\<rparr>
         else if isOpen \<and> wasClosed st then
           (let st1 = (if closedFrameCount st \<ge> 2 \<and> frameIndex - lastBlinkFrame st \<ge> 3
                       then st\<lparr>blinkCount := blinkCount st + 1, lastBlinkFrame := frameIndex\<rparr>
                       else st)
            in st1\<lparr>wasClosed := False, closedFrameCount := 0\<rparr>)
         else if isOpen then
           st\<lparr>wasClosed := False, closedFrameCount := 0\<rparr>
         else st)"

fun specBlinkRun ::
  "'n arith \<Rightarrow> blink_state \<Rightarrow> ('n landmarks \<times> int) list \<Rightarrow> blink_state" where
  "specBlinkRun A st [] = st"
| "specBlinkRun A st ((lm, f) # frames) = specBlinkRun A (specBlinkUpdate A st lm f) frames"


subsection \<open>Concrete readings\<close>

text \<open>
  Binary64 values as the real numbers they denote, for computations in which no
  operation has to round: the literals 0.18, 0.12 and 1.15, which are not binary
  fractions, are the binary64 numbers nearest to them, the other literals of the
  detectors (0.25, 30, 2 and 1) are binary64 numbers themselves, and the operations are
  exact. Where every intermediate
  result is a binary64 number, this is the computation of the program.
\<close>

definition d018 :: real where
  "d018 = 3242591731706757 / 2 ^ 54"

definition d012 :: real where
  "d012 = 1080863910568919 / 2 ^ 53"

definition d115 :: real where
  "d115 = 2589569785738035 / 2 ^ 51"

definition exact64 :: "real arith" where
  "exact64 =
     \<lparr>n_lit = (\<lambda>x. if x = ''0.18'' then d018 else if x = ''0.12'' then d012
                    else if x = ''1.15'' then d115 else if x = ''0.25'' then 1 / 4
                    else if x = ''30'' then 30 else if x = ''2'' then 2 else 1),
      n_add = (\<lambda>a b. a + b), n_sub = (\<lambda>a b. a - b), n_mul = (\<lambda>a b. a * b),
      n_div = (\<lambda>a b. a / b), n_abs = (\<lambda>a. \<bar>a\<bar>), n_max = max,
      n_hypot = (\<lambda>a b. sqrt (a * a + b * b)),
      n_lt = (\<lambda>a b. a < b), n_gt = (\<lambda>a b. a > b), n_le = (\<lambda>a b. a \<le> b),
      n_ge = (\<lambda>a b. a \<ge> b), n_falsy = (\<lambda>a. a = 0)\<rparr>"

text \<open>
  An eye two units wide whose lids are \<open>h\<close> apart has EAR \<open>h / 2\<close>; a face with two such
  eyes, its nose at abscissa \<open>n\<close> and its mouth \<open>w\<close> wide.
\<close>

definition eye :: "real \<Rightarrow> real point list" where
  "eye h = [\<lparr>px = 0, py = 0\<rparr>, \<lparr>px = 1/2, py = h\<rparr>, \<lparr>px = 3/2, py = h\<rparr>,
            \<lparr>px = 2, py = 0\<rparr>, \<lparr>px = 3/2, py = 0\<rparr>, \<lparr>px = 1/2, py = 0\<rparr>]"

definition mouthOf :: "real \<Rightarrow> real point list" where
  "mouthOf w = [\<lparr>px = 0, py = 0\<rparr>, \<lparr>px = 1, py = 0\<rparr>, \<lparr>px = 2, py = 0\<rparr>, \<lparr>px = 3, py = 0\<rparr>,
                \<lparr>px = 4, py = 0\<rparr>, \<lparr>px = 5, py = 0\<rparr>, \<lparr>px = w, py = 0\<rparr>]"

definition face :: "real \<Rightarrow> real \<Rightarrow> real \<Rightarrow> real landmarks" where
  "face h n w =
     \<lparr>getLeftEye = Some (eye h), getRightEye = Some (eye h),
      getNose = Some [\<lparr>px = n, py = 0\<rparr>, \<lparr>px = n, py = 1\<rparr>, \<lparr>px = n, py = 2\<rparr>, \<lparr>px = n, py = 3\<rparr>],
      getMouth = Some (mouthOf w), positions = None\<rparr>"

text \<open>
  Eyes shut (EAR 0), eyes wide open (EAR 1/2), eyes at an EAR of exactly 1/4, and eyes
  at an EAR that is exactly the binary64 number 0.18.
\<close>

definition shut :: "real landmarks" where
  "shut = face 0 50 40"

definition wide :: "real landmarks" where
  "wide = face 1 50 40"

definition quarter :: "real landmarks" where
  "quarter = face (1/2) 50 40"

definition edge18 :: "real landmarks" where
  "edge18 = face (2 * d018) 50 40"

text \<open>A face whose mouth cannot be read.\<close>

definition noMouth :: "real landmarks" where
  "noMouth = (face 1 50 40)\<lparr>getMouth := None\<rparr>"

text \<open>A box whose width times the binary64 number 0.12 needs no rounding.\<close>

definition box256 :: "real box" where
  "box256 = \<lparr>b_x = 0, b_y = 0, b_width = 256, b_height = 256\<rparr>"


section \<open>The liveness component and its detection loop\<close>

text \<open>
  The component runs on one event loop. Between two events nothing happens; an event
  is an animation frame delivered to a pending \<^verbatim>\<open>requestAnimationFrame\<close> callback, the
  settling of a pending landmark detection, a tick of the countdown interval, or a click.
  \<^verbatim>\<open>runDetection\<close> is suspended at its \<^verbatim>\<open>await\<close>, so it is two handlers: the part up to
  the call of the landmark provider, run on a frame, and the part after it, run when the
  detection settles.

  Each run of the detection effect makes its own \<^verbatim>\<open>runDetection\<close>, with its own
  \<^verbatim>\<open>rafId\<close> and \<^verbatim>\<open>lastRun\<close>, and with the \<^verbatim>\<open>status\<close> of the render that ran the effect:
  this is a \<open>loop\<close>. It has a callback pending (\<open>Scheduled\<close>), is waiting for the
  provider (\<open>Awaiting\<close>), has returned without asking for another frame (\<open>Finished\<close>), or
  has had its pending callback cancelled by the cleanup of the effect (\<open>Cancelled\<close>).
\<close>

datatype phase = Scheduled | Awaiting | Finished | Cancelled

record loop =
  l_status :: string
  lastRun :: real
  phase :: phase

text \<open>What the component does to the outside, in order.\<close>

datatype action = ProviderCall nat | DetectorRun nat | OnSuccess | OnRetry | OnFail

record 'n component =
  ui_status :: string
  ui_timeLeft :: int
  ui_progress :: "nat \<times> nat"
  ui_noFaceCount :: nat
  frameRef :: int
  lastDetectionRef :: real
  timerActive :: bool
  runnerRef :: "'n runner"
  loops :: "loop list"
  actions :: "action list"

definition CHALLENGE_TIMEOUT_SEC :: int where
  "CHALLENGE_TIMEOUT_SEC = 6"

definition DETECTION_INTERVAL_MS :: real where
  "DETECTION_INTERVAL_MS = 80"

text \<open>
  The cleanup of the detection effect, \<^verbatim>\<open>if (rafId) cancelAnimationFrame(rafId)\<close>, on the
  loop of the effect's latest run: a pending callback is cancelled; when the loop is
  waiting for the provider, \<^verbatim>\<open>rafId\<close> names a callback that has already run and nothing
  is cancelled.
\<close>

fun cancelCurrent :: "loop list \<Rightarrow> loop list" where
  "cancelCurrent [] = []"
| "cancelCurrent [l] = [if phase l = Scheduled then l\<lparr>phase := Cancelled\<rparr> else l]"
| "cancelCurrent (l # ls) = l # cancelCurrent ls"

text \<open>
  \<^verbatim>\<open>setStatus(s)\<close> and the render it causes. Setting the status it already has changes
  nothing. Otherwise the two effects that depend on \<^verbatim>\<open>status\<close> run again: the countdown
  is cleared and, for \<open>detecting\<close>, started; the detection effect is cleaned up and makes
  a new loop with the new status.
\<close>

definition setStatus :: "string \<Rightarrow> 'n component \<Rightarrow> 'n component" where
  "setStatus s c =
     (if s = ui_status c then c
      else c\<lparr>ui_status := s,
             timerActive := (s = ''detecting''),
             loops := cancelCurrent (loops c) @ [\<lparr>l_status = s, lastRun = 0, phase = Scheduled\<rparr>]\<rparr>)"

text \<open>The component after its first render and effects, for a challenge.\<close>

definition required0 :: "challenge \<Rightarrow> nat" where
  "required0 ch = (if requiredCount ch = 0 then 1 else requiredCount ch)"

definition mount :: "challenge \<Rightarrow> 'n component" where
  "mount ch =
     \<lparr>ui_status = ''detecting'', ui_timeLeft = CHALLENGE_TIMEOUT_SEC,
      ui_progress = (0, required0 ch), ui_noFaceCount = 0, frameRef = 0,
      lastDetectionRef = 0, timerActive = True,
      runnerRef = reset createChallengeRunner,
      loops = [\<lparr>l_status = ''detecting'', lastRun = 0, phase = Scheduled\<rparr>],
      actions = []\<rparr>"

text \<open>
  \<^verbatim>\<open>runDetection\<close> of loop \<open>i\<close> up to its \<^verbatim>\<open>await\<close>, on a frame at time \<open>now\<close>. The video
  element and the runner are there. In the first two branches the loop asks for the
  next frame and stays scheduled.
\<close>

definition runDetection_frame :: "nat \<Rightarrow> real \<Rightarrow> 'n component \<Rightarrow> 'n component" where
  "runDetection_frame i now c =
     (if i < length (loops c) \<and> phase (loops c ! i) = Scheduled then
        let l = loops c ! i in
        if l_status l \<noteq> ''detecting'' then c
        else if now - lastRun l < DETECTION_INTERVAL_MS then c
        else c\<lparr>loops := (loops c)[i := l\<lparr>lastRun := now, phase := Awaiting\<rparr>],
               lastDetectionRef := now,
               frameRef := frameRef c + 1,
               actions := actions c @ [ProviderCall i]\<rparr>
      else c)"

text \<open>
  \<^verbatim>\<open>runDetection\<close> of loop \<open>i\<close> after its \<^verbatim>\<open>await\<close>, when the provider has answered with
  \<open>det\<close>. When the runner reports that the challenge is passed, the loop sets the status,
  clears the countdown, calls \<^verbatim>\<open>onSuccess\<close> and returns; otherwise it asks for the next
  frame.
\<close>

definition runDetection_resolved ::
  "'n arith \<Rightarrow> string \<Rightarrow> nat \<Rightarrow> 'n detection option \<Rightarrow> 'n component \<Rightarrow> 'n component" where
  "runDetection_resolved A challengeType i det c =
     (if i < length (loops c) \<and> phase (loops c ! i) = Awaiting then
        case det of
          None \<Rightarrow>
            c\<lparr>ui_noFaceCount := ui_noFaceCount c + 1,
              loops := (loops c)[i := (loops c ! i)\<lparr>phase := Scheduled\<rparr>]\<rparr>
        | Some d \<Rightarrow>
            (let (result, rn) = run A challengeType (runnerRef c) d (frameRef c);
                 c1 = c\<lparr>ui_noFaceCount := 0, runnerRef := rn,
                        ui_progress := (progress result,
                                        case required result of None \<Rightarrow> 1 | Some r \<Rightarrow> r),
                        actions := actions c @ [DetectorRun i]\<rparr>
             in if passed result then
                  (let c2 = setStatus ''success''
                              (c1\<lparr>loops := (loops c1)[i := (loops c1 ! i)\<lparr>phase := Finished\<rparr>]\<rparr>)
                   in c2\<lparr>timerActive := False, actions := actions c2 @ [OnSuccess]\<rparr>)
                else c1\<lparr>loops := (loops c1)[i := (loops c1 ! i)\<lparr>phase := Scheduled\<rparr>]\<rparr>)
      else c)"

text \<open>The provider fails: the error is logged and the loop asks for the next frame.\<close>

definition runDetection_rejected :: "nat \<Rightarrow> 'n component \<Rightarrow> 'n component" where
  "runDetection_rejected i c =
     (if i < length (loops c) \<and> phase (loops c ! i) = Awaiting
      then c\<lparr>loops := (loops c)[i := (loops c ! i)\<lparr>phase := Scheduled\<rparr>]\<rparr>
      else c)"

text \<open>One tick of the countdown interval, when it is running.\<close>

definition tick :: "'n component \<Rightarrow> 'n component" where
  "tick c =
     (if timerActive c then
        (if ui_timeLeft c \<le> 1
         then (setStatus ''failed'' (c\<lparr>timerActive := False\<rparr>))\<lparr>ui_timeLeft := 0\<rparr>
         else c\<lparr>ui_timeLeft := ui_timeLeft c - 1\<rparr>)
      else c)"

text \<open>The two buttons; they are on the page only in the failed state.\<close>

definition handleRetry :: "challenge \<Rightarrow> 'n component \<Rightarrow> 'n component" where
  "handleRetry ch c =
     (if ui_status c = ''failed'' then
        (let c1 = setStatus ''detecting''
                    (c\<lparr>runnerRef := reset (runnerRef c),
                       ui_timeLeft := CHALLENGE_TIMEOUT_SEC,
                       ui_progress := (0, required0 ch),
                       ui_noFaceCount := 0,
                       frameRef := 0\<rparr>)
         in c1\<lparr>actions := actions c1 @ [OnRetry]\<rparr>)
      else c)"

definition handleCancel :: "'n component \<Rightarrow> 'n component" where
  "handleCancel c =
     (if ui_status c = ''failed'' then c\<lparr>actions := actions c @ [OnFail]\<rparr> else c)"

datatype 'n event =
    Frame nat real
  | Resolved nat "'n detection option"
  | Rejected nat
  | Tick
  | RetryClick
  | CancelClick

fun handle :: "'n arith \<Rightarrow> challenge \<Rightarrow> 'n component \<Rightarrow> 'n event \<Rightarrow> 'n component" where
  "handle A ch c (Frame i now) = runDetection_frame i now c"
| "handle A ch c (Resolved i det) = runDetection_resolved A (c_type ch) i det c"
| "handle A ch c (Rejected i) = runDetection_rejected i c"
| "handle A ch c Tick = tick c"
| "handle A ch c RetryClick = handleRetry ch c"
| "handle A ch c CancelClick = handleCancel c"

definition runEvents ::
  "'n arith \<Rightarrow> challenge \<Rightarrow> 'n component \<Rightarrow> 'n event list \<Rightarrow> 'n component" where
  "runEvents A ch c evs = foldl (handle A ch) c evs"

section \<open>Notions used to state the properties of the detection loop\<close>

text \<open>The actions that come after the first call of the success callback.\<close>

fun afterSuccess :: "action list \<Rightarrow> action list" where
  "afterSuccess [] = []"
| "afterSuccess (a # as) = (if a = OnSuccess then as else afterSuccess as)"

text \<open>Events of the loop alone: no tick of the countdown and no click.\<close>

fun loopEvent :: "'n event \<Rightarrow> bool" where
  "loopEvent (Frame i now) = True"
| "loopEvent (Resolved i det) = True"
| "loopEvent (Rejected i) = True"
| "loopEvent Tick = False"
| "loopEvent RetryClick = False"
| "loopEvent CancelClick = False"

text \<open>
  The component as it is while only its first loop has run: detecting with that one
  loop and no success so far, or in the success state with the first loop finished, an
  idle loop made for the success state, and the success callback called once, as the
  last action.
\<close>

definition undisturbed :: "'n component \<Rightarrow> bool" where
  "undisturbed c =
     ((ui_status c = ''detecting'' \<and> length (loops c) = 1
         \<and> l_status (loops c ! 0) = ''detecting''
         \<and> (phase (loops c ! 0) = Scheduled \<or> phase (loops c ! 0) = Awaiting)
         \<and> count_list (actions c) OnSuccess = 0)
      \<or> (ui_status c = ''success'' \<and> length (loops c) = 2
         \<and> phase (loops c ! 0) = Finished
         \<and> l_status (loops c ! 1) = ''success'' \<and> phase (loops c ! 1) = Scheduled
         \<and> count_list (actions c) OnSuccess = 1 \<and> afterSuccess (actions c) = []))"

subsection \<open>A concrete run\<close>

definition headLeft :: challenge where
  "headLeft = \<lparr>c_id = ''head_left'', c_type = ''head_left'', c_label = ''Turn Head Left'',
               requiredCount = 1\<rparr>"

text \<open>A face looking straight ahead, and the same face with the head turned.\<close>

definition straight :: "real detection" where
  "straight = \<lparr>d_landmarks = Some (face 1 128 40), d_box = box256\<rparr>"

definition turned :: "real detection" where
  "turned = \<lparr>d_landmarks = Some (face 1 168 40), d_box = box256\<rparr>"

text \<open>
  The countdown runs out while the first loop waits for the provider; the user tries
  again and turns the head.
\<close>

definition timeoutThenRetry :: "real event list" where
  "timeoutThenRetry =
     [Frame 0 100, Resolved 0 (Some straight),
      Tick, Tick, Tick, Tick, Tick,
      Frame 0 5900, Tick, Resolved 0 (Some straight),
      RetryClick,
      Frame 2 6500, Resolved 2 (Some turned),
      Frame 0 6600, Resolved 0 (Some turned)]"

section \<open>Properties of the attendance backend\<close>

subsection \<open>The upsert\<close>

lemma find_updateFirst:
  "find p xs = Some a \<Longrightarrow> p (f a) \<Longrightarrow> find p (updateFirst p f xs) = Some (f a)"
  by (induction xs) (auto split: if_splits)

lemma find_append_new:
  "find p xs = None \<Longrightarrow> p d \<Longrightarrow> find p (xs @ [d]) = Some d"
  by (induction xs) (auto split: if_splits)

lemma length_updateFirst: "length (updateFirst p f xs) = length xs"
  by (induction xs) auto

lemma filter_updateFirst_out:
  "(\<And>a. p a \<Longrightarrow> \<not> q a \<and> \<not> q (f a)) \<Longrightarrow> filter q (updateFirst p f xs) = filter q xs"
  by (induction xs) auto

lemma matchesKey_keyOf: "matchesKey s c d e a \<longleftrightarrow> keyOf a = (s, c, d, e)"
  by (auto simp: matchesKey_def keyOf_def)

lemma keyOf_setFields: "keyOf (setFields upd old) = keyOf upd"
  by (simp add: keyOf_def setFields_def)

lemma map_keyOf_updateFirst:
  "(\<And>a. p a \<Longrightarrow> keyOf (f a) = keyOf a) \<Longrightarrow> map keyOf (updateFirst p f xs) = map keyOf xs"
  by (induction xs) auto

lemma find_None_key:
  "find (matchesKey s c d e) xs = None \<longleftrightarrow> (s, c, d, e) \<notin> set (map keyOf xs)"
  by (induction xs) (auto simp: matchesKey_keyOf)

text \<open>An upsert that succeeds leaves the keys as they are or appends the one new key.\<close>

lemma upsert_keys:
  assumes "findOneAndUpdate check srv upd = Inr (doc, srv')"
  shows "map keyOf (attendances srv') =
           (if keyOf upd \<in> set (map keyOf (attendances srv))
            then map keyOf (attendances srv)
            else map keyOf (attendances srv) @ [keyOf upd])"
proof (cases "find (matchesKey (studentId upd) (classId upd) (date upd) (sessionId upd)) (attendances srv)")
  case None
  then have "keyOf upd \<notin> set (map keyOf (attendances srv))"
    by (simp add: find_None_key keyOf_def)
  with None assms show ?thesis
    by (auto simp: findOneAndUpdate_def Let_def keyOf_def split: option.splits)
next
  case (Some old)
  then have "keyOf upd \<in> set (map keyOf (attendances srv))"
    using find_None_key[of "studentId upd" "classId upd" "date upd" "sessionId upd" "attendances srv"]
    by (simp add: keyOf_def)
  moreover have "map keyOf (updateFirst (matchesKey (studentId upd) (classId upd) (date upd) (sessionId upd)) (setFields upd) (attendances srv)) = map keyOf (attendances srv)"
    by (rule map_keyOf_updateFirst) (simp add: keyOf_setFields matchesKey_keyOf, simp add: keyOf_def)
  ultimately show ?thesis using Some assms
    by (auto simp: findOneAndUpdate_def Let_def split: option.splits)
qed

lemma upsert_length:
  assumes "findOneAndUpdate check srv upd = Inr (doc, srv')"
  shows "length (attendances srv') =
           (if keyOf upd \<in> set (map keyOf (attendances srv))
            then length (attendances srv) else Suc (length (attendances srv)))"
  using upsert_keys[OF assms] by (metis (full_types) length_append_singleton length_map)

lemma upsert_rest:
  assumes "findOneAndUpdate check srv upd = Inr (doc, srv')"
  shows "sessions srv' = sessions srv \<and> activeSessions srv' = activeSessions srv
         \<and> auditLog srv' = auditLog srv \<and> classes srv' = classes srv
         \<and> students srv' = students srv"
  using assms by (auto simp: findOneAndUpdate_def Let_def split: option.splits)

text \<open>After it, the first record under the key is the one returned, with the new status.\<close>

lemma upsert_find:
  assumes "findOneAndUpdate check srv upd = Inr (doc, srv')"
  shows "find (matchesKey (studentId upd) (classId upd) (date upd) (sessionId upd)) (attendances srv')
           = Some doc
         \<and> status doc = status upd \<and> consecutiveLateCount doc = consecutiveLateCount upd"
proof (cases "find (matchesKey (studentId upd) (classId upd) (date upd) (sessionId upd)) (attendances srv)")
  case None
  have "matchesKey (studentId upd) (classId upd) (date upd) (sessionId upd)
          (upd\<lparr>aid := nextId srv, remark := None\<rparr>)"
    by (simp add: matchesKey_def)
  from find_append_new[OF None this] None assms show ?thesis
    by (auto simp: findOneAndUpdate_def Let_def split: option.splits)
next
  case (Some old)
  have "matchesKey (studentId upd) (classId upd) (date upd) (sessionId upd) (setFields upd old)"
    by (simp add: matchesKey_def setFields_def)
  from find_updateFirst[OF Some, of "setFields upd", OF this] Some assms show ?thesis
    by (auto simp: findOneAndUpdate_def Let_def setFields_def split: option.splits)
qed

text \<open>Records of earlier dates are out of its reach.\<close>

lemma upsert_older:
  assumes "findOneAndUpdate check srv upd = Inr (doc, srv')"
  shows "older (date upd) (attendances srv') = older (date upd) (attendances srv)"
proof (cases "find (matchesKey (studentId upd) (classId upd) (date upd) (sessionId upd)) (attendances srv)")
  case None
  with assms show ?thesis
    by (auto simp: findOneAndUpdate_def Let_def older_def split: option.splits)
next
  case (Some old)
  have "filter (\<lambda>a. date a < date upd)
          (updateFirst (matchesKey (studentId upd) (classId upd) (date upd) (sessionId upd))
             (setFields upd) (attendances srv))
        = filter (\<lambda>a. date a < date upd) (attendances srv)"
    by (rule filter_updateFirst_out) (simp add: matchesKey_def setFields_def)
  with Some assms show ?thesis
    by (auto simp: findOneAndUpdate_def Let_def older_def split: option.splits)
qed

lemma upsert_error_indep:
  "findOneAndUpdate check A upd = Inl e \<Longrightarrow> findOneAndUpdate check B upd = Inl e"
  by (auto simp: findOneAndUpdate_def Let_def split: option.splits)

lemma upsert_ok_indep:
  "findOneAndUpdate check A upd = Inr p \<Longrightarrow> \<exists>q. findOneAndUpdate check B upd = Inr q"
  by (auto simp: findOneAndUpdate_def Let_def split: option.splits)

subsection \<open>One scan\<close>

lemma keyOf_scanUpdate:
  "keyOf (scanUpdate usr sess cid today start srv rc) = (rq_studentId (fst rc), cid, today, sess)"
  by (simp add: scanUpdate_def Let_def keyOf_def)

lemma date_scanUpdate: "date (scanUpdate usr sess cid today start srv rc) = today"
  by (simp add: scanUpdate_def Let_def)

lemma fields_scanUpdate:
  "studentId (scanUpdate usr sess cid today start srv rc) = rq_studentId (fst rc)"
  "classId (scanUpdate usr sess cid today start srv rc) = cid"
  "sessionId (scanUpdate usr sess cid today start srv rc) = sess"
  "(status (scanUpdate usr sess cid today start srv rc),
    consecutiveLateCount (scanUpdate usr sess cid today start srv rc))
     = resolveStatus (rq_status (fst rc)) (isLate (nowMs (snd rc)) start)
         (consecutiveLate (attendances srv) (rq_studentId (fst rc)) cid today)"
  by (simp_all add: scanUpdate_def Let_def)

lemma markOne_saved:
  assumes "markOne check usr sess cid today start srv rc = (Saved s i l fs fc, srv')"
  shows "\<exists>doc. findOneAndUpdate check srv (scanUpdate usr sess cid today start srv rc) = Inr (doc, srv')
           \<and> i = aid doc"
    and "s = rq_studentId (fst rc)"
    and "l = isLate (nowMs (snd rc)) start"
    and "(fs, fc) = resolveStatus (rq_status (fst rc)) (isLate (nowMs (snd rc)) start)
                      (consecutiveLate (attendances srv) (rq_studentId (fst rc)) cid today)"
  using assms fields_scanUpdate[of usr sess cid today start srv rc]
  by (auto simp: markOne_def Let_def split: sum.splits db_error.splits prod.splits)

lemma markOne_keys:
  assumes "markOne check usr sess cid today start srv rc = (res, srv')"
  shows "map keyOf (attendances srv') =
           (if (\<exists>s i l fs fc. res = Saved s i l fs fc)
               \<and> (rq_studentId (fst rc), cid, today, sess) \<notin> set (map keyOf (attendances srv))
            then map keyOf (attendances srv) @ [(rq_studentId (fst rc), cid, today, sess)]
            else map keyOf (attendances srv))"
proof (cases "findOneAndUpdate check srv (scanUpdate usr sess cid today start srv rc)")
  case (Inl e)
  with assms show ?thesis
    by (cases e) (auto simp: markOne_def Let_def)
next
  case (Inr p)
  obtain doc s1 where p: "p = (doc, s1)" by (cases p)
  from Inr p assms have "srv' = s1" and "\<exists>s i l fs fc. res = Saved s i l fs fc"
    by (auto simp: markOne_def Let_def)
  then show ?thesis
    using upsert_keys[OF Inr[unfolded p]] by (simp add: keyOf_scanUpdate)
qed

lemma markOne_saved_key:
  assumes "markOne check usr sess cid today start srv rc = (Saved s i l fs fc, srv')"
  shows "(rq_studentId (fst rc), cid, today, sess) \<in> set (map keyOf (attendances srv'))"
  using markOne_keys[OF assms] by (auto split: if_splits)

lemma markOne_grow:
  assumes "markOne check usr sess cid today start srv rc = (res, srv')"
  shows "(distinct (map keyOf (attendances srv)) \<longrightarrow> distinct (map keyOf (attendances srv')))
         \<and> set (map keyOf (attendances srv)) \<subseteq> set (map keyOf (attendances srv'))"
  using markOne_keys[OF assms] by (auto split: if_splits)

lemma markOne_rest:
  assumes "markOne check usr sess cid today start srv rc = (res, srv')"
  shows "sessions srv' = sessions srv \<and> activeSessions srv' = activeSessions srv
         \<and> auditLog srv' = auditLog srv"
  using assms upsert_rest
  by (fastforce simp: markOne_def Let_def split: sum.splits db_error.splits prod.splits)

lemma markOne_older:
  assumes "markOne check usr sess cid today start srv rc = (res, srv')"
  shows "older today (attendances srv') = older today (attendances srv)"
proof (cases "findOneAndUpdate check srv (scanUpdate usr sess cid today start srv rc)")
  case (Inl e)
  with assms show ?thesis by (cases e) (auto simp: markOne_def Let_def)
next
  case (Inr p)
  obtain doc s1 where p: "p = (doc, s1)" by (cases p)
  from Inr p assms have "srv' = s1" by (auto simp: markOne_def Let_def)
  with upsert_older[OF Inr[unfolded p]] show ?thesis by (simp add: date_scanUpdate)
qed

lemma priorRecords_older:
  "priorRecords coll sid cid today =
     filter (\<lambda>a. studentId a = sid \<and> classId a = cid) (older today coll)"
  unfolding priorRecords_def older_def filter_filter by (rule filter_cong) auto

lemma scanUpdate_older:
  "older today (attendances A) = older today (attendances B) \<Longrightarrow>
   scanUpdate usr sess cid today start A rc = scanUpdate usr sess cid today start B rc"
  by (simp add: scanUpdate_def consecutiveLate_def previousAttendances_def priorRecords_older)

subsection \<open>A batch and a call\<close>

lemma markAll_grow:
  "markAll check usr sess cid today start srv rcs = (ress, srv') \<Longrightarrow>
   (distinct (map keyOf (attendances srv)) \<longrightarrow> distinct (map keyOf (attendances srv')))
     \<and> set (map keyOf (attendances srv)) \<subseteq> set (map keyOf (attendances srv'))"
proof (induction rcs arbitrary: srv ress srv')
  case Nil
  then show ?case by simp
next
  case (Cons rc rcs)
  obtain r1 s1 where one: "markOne check usr sess cid today start srv rc = (r1, s1)"
    by (cases "markOne check usr sess cid today start srv rc")
  obtain rs s2 where rest: "markAll check usr sess cid today start s1 rcs = (rs, s2)"
    by (cases "markAll check usr sess cid today start s1 rcs")
  from Cons.prems one rest have "srv' = s2" by simp
  with markOne_grow[OF one] Cons.IH[OF rest] show ?case by blast
qed

lemma markAll_rest:
  "markAll check usr sess cid today start srv rcs = (ress, srv') \<Longrightarrow>
   sessions srv' = sessions srv \<and> activeSessions srv' = activeSessions srv
     \<and> auditLog srv' = auditLog srv"
proof (induction rcs arbitrary: srv ress srv')
  case Nil
  then show ?case by simp
next
  case (Cons rc rcs)
  obtain r1 s1 where one: "markOne check usr sess cid today start srv rc = (r1, s1)"
    by (cases "markOne check usr sess cid today start srv rc")
  obtain rs s2 where rest: "markAll check usr sess cid today start s1 rcs = (rs, s2)"
    by (cases "markAll check usr sess cid today start s1 rcs")
  from Cons.prems one rest have "srv' = s2" by simp
  with markOne_rest[OF one] Cons.IH[OF rest] show ?case by simp
qed

lemma markAll_older:
  "markAll check usr sess cid today start srv rcs = (ress, srv') \<Longrightarrow>
   older today (attendances srv') = older today (attendances srv)"
proof (induction rcs arbitrary: srv ress srv')
  case Nil
  then show ?case by simp
next
  case (Cons rc rcs)
  obtain r1 s1 where one: "markOne check usr sess cid today start srv rc = (r1, s1)"
    by (cases "markOne check usr sess cid today start srv rc")
  obtain rs s2 where rest: "markAll check usr sess cid today start s1 rcs = (rs, s2)"
    by (cases "markAll check usr sess cid today start s1 rcs")
  from Cons.prems one rest have "srv' = s2" by simp
  with markOne_older[OF one] Cons.IH[OF rest] show ?case by simp
qed

text \<open>
  The paths of \<^const>\<open>markAttendance\<close>: it leaves with an error and the server as it was,
  or runs the batch and adds one audit entry.
\<close>

lemma markAttendance_cases:
  obtains (noop) "snd (markAttendance check usr srv rq) = srv"
  | (run) sess cid doc rcs ress s1 e where
      "m_sessionId rq = Some sess" "m_classId rq = Some cid" "recognizedStudents rq = Some rcs"
      "find (\<lambda>d. s_sessionId d = sess) (sessions srv) = Some doc"
      "markAll check usr sess cid (m_today rq) (startTime doc) srv rcs = (ress, s1)"
      "snd (markAttendance check usr srv rq) = s1\<lparr>auditLog := auditLog s1 @ [e]\<rparr>"
proof (cases "falsy (m_sessionId rq) \<or> falsy (m_classId rq) \<or> recognizedStudents rq = None")
  case True
  then have "snd (markAttendance check usr srv rq) = srv"
    by (simp add: markAttendance_def)
  then show ?thesis by (rule noop)
next
  case False
  then obtain sess cid rcs where f: "m_sessionId rq = Some sess" "m_classId rq = Some cid"
      "recognizedStudents rq = Some rcs"
    by (auto simp: falsy_def split: option.splits)
  show ?thesis
  proof (cases "map_of (activeSessions srv) sess")
    case None
    with False f have "snd (markAttendance check usr srv rq) = srv"
      by (simp add: markAttendance_def)
    then show ?thesis by (rule noop)
  next
    case (Some session)
    show ?thesis
    proof (cases "find (\<lambda>d. s_sessionId d = sess) (sessions srv)")
      case None
      with False f Some have "snd (markAttendance check usr srv rq) = srv"
        by (simp add: markAttendance_def)
      then show ?thesis by (rule noop)
    next
      case (Some doc)
      obtain ress s1 where m: "markAll check usr sess cid (m_today rq) (startTime doc) srv rcs = (ress, s1)"
        by (cases "markAll check usr sess cid (m_today rq) (startTime doc) srv rcs")
      from False f \<open>map_of (activeSessions srv) sess = Some session\<close> Some m
      have "snd (markAttendance check usr srv rq) =
              s1\<lparr>auditLog := auditLog s1 @ [\<lparr>actorUserId = uid usr, action = ''MARK_ATTENDANCE'',
                             au_sessionId = sess, au_classId = cid, au_count = length rcs\<rparr>]\<rparr>"
        by (simp add: markAttendance_def Let_def)
      with f Some m show ?thesis by (rule run)
    qed
  qed
qed

lemma markAttendance_grow:
  "(distinct (map keyOf (attendances srv)) \<longrightarrow>
      distinct (map keyOf (attendances (snd (markAttendance check usr srv rq)))))
   \<and> set (map keyOf (attendances srv))
       \<subseteq> set (map keyOf (attendances (snd (markAttendance check usr srv rq))))"
proof (cases rule: markAttendance_cases[of check usr srv rq])
  case noop
  then show ?thesis by simp
next
  case (run sess cid doc rcs ress s1 e)
  from markAll_grow[OF run(5)] run(6) show ?thesis by simp
qed

lemma markAttendances_grow:
  "(distinct (map keyOf (attendances srv)) \<longrightarrow>
      distinct (map keyOf (attendances (markAttendances check srv rqs))))
   \<and> set (map keyOf (attendances srv))
       \<subseteq> set (map keyOf (attendances (markAttendances check srv rqs)))"
proof (induction rqs arbitrary: srv)
  case Nil
  then show ?case by simp
next
  case (Cons urq rqs)
  obtain usr rq where u: "urq = (usr, rq)" by (cases urq)
  show ?case
    using markAttendance_grow[of srv check usr rq]
          Cons.IH[of "snd (markAttendance check usr srv rq)"]
    unfolding u by (simp del: set_map) blast
qed

lemma countKey_distinct:
  "distinct (map keyOf coll) \<Longrightarrow>
   countKey s c d e coll = (if (s, c, d, e) \<in> set (map keyOf coll) then 1 else 0)"
proof (induction coll)
  case Nil
  then show ?case by (simp add: countKey_def)
next
  case (Cons a coll)
  then show ?case
    by (auto simp: countKey_def matchesKey_keyOf filter_empty_conv)
qed

text \<open>
  Running a batch a second time: when the two states agree on the records of earlier
  dates and the second already holds every key the first run ends with, no record is
  added.
\<close>

lemma markAll_again_length:
  assumes "older today (attendances A) = older today (attendances B)"
      and "markAll check usr sess cid today start A rcs = (ra, A')"
      and "set (map keyOf (attendances A')) \<subseteq> set (map keyOf (attendances B))"
  shows "length (attendances (snd (markAll check usr sess cid today start B rcs)))
           = length (attendances B)"
  using assms
proof (induction rcs arbitrary: A B ra A')
  case Nil
  then show ?case by simp
next
  case (Cons rc rcs)
  let ?upd = "scanUpdate usr sess cid today start A rc"
  have updB: "scanUpdate usr sess cid today start B rc = ?upd"
    using scanUpdate_older[OF Cons.prems(1)] by simp
  obtain r1 A1 where oneA: "markOne check usr sess cid today start A rc = (r1, A1)"
    by (cases "markOne check usr sess cid today start A rc")
  obtain rs A2 where restA: "markAll check usr sess cid today start A1 rcs = (rs, A2)"
    by (cases "markAll check usr sess cid today start A1 rcs")
  from Cons.prems(2) oneA restA have A2: "A' = A2" by simp
  obtain r1b B1 where oneB: "markOne check usr sess cid today start B rc = (r1b, B1)"
    by (cases "markOne check usr sess cid today start B rc")
  have B1: "length (attendances B1) = length (attendances B)
            \<and> set (map keyOf (attendances B1)) = set (map keyOf (attendances B))"
  proof (cases "findOneAndUpdate check A ?upd")
    case (Inl e)
    from upsert_error_indep[OF Inl, of B] oneB updB have "B1 = B"
      by (cases e) (auto simp: markOne_def Let_def)
    then show ?thesis by simp
  next
    case (Inr p)
    obtain doc s1 where p: "p = (doc, s1)" by (cases p)
    from Inr p oneA have "\<exists>s i l fs fc. r1 = Saved s i l fs fc"
      by (auto simp: markOne_def Let_def)
    then have "(rq_studentId (fst rc), cid, today, sess) \<in> set (map keyOf (attendances A1))"
      using markOne_saved_key oneA by blast
    moreover have "set (map keyOf (attendances A1)) \<subseteq> set (map keyOf (attendances A2))"
      using markAll_grow[OF restA] by simp
    ultimately have inB: "(rq_studentId (fst rc), cid, today, sess) \<in> set (map keyOf (attendances B))"
      using Cons.prems(3) A2 by blast
    from upsert_ok_indep[OF Inr, of B] obtain q where q: "findOneAndUpdate check B ?upd = Inr q"
      by blast
    obtain docb sb where qq: "q = (docb, sb)" by (cases q)
    from q qq oneB updB have "B1 = sb" by (auto simp: markOne_def Let_def)
    with upsert_keys[OF q[unfolded qq]] upsert_length[OF q[unfolded qq]] inB
    show ?thesis by (simp add: keyOf_scanUpdate)
  qed
  have "older today (attendances A1) = older today (attendances B1)"
    using markOne_older[OF oneA] markOne_older[OF oneB] Cons.prems(1) by simp
  moreover have "set (map keyOf (attendances A2)) \<subseteq> set (map keyOf (attendances B1))"
    using Cons.prems(3) A2 B1 by simp
  ultimately have "length (attendances (snd (markAll check usr sess cid today start B1 rcs)))
                     = length (attendances B1)"
    using Cons.IH[OF _ restA] by blast
  with oneB B1 show ?case by (simp add: split_beta)
qed

lemma markAttendance_twice_length:
  "length (attendances (snd (markAttendance check usr (snd (markAttendance check usr srv rq)) rq)))
     = length (attendances (snd (markAttendance check usr srv rq)))"
proof (cases rule: markAttendance_cases[of check usr srv rq])
  case noop
  then show ?thesis by simp
next
  case (run sess cid doc rcs ress s1 e)
  let ?B = "s1\<lparr>auditLog := auditLog s1 @ [e]\<rparr>"
  have rest: "sessions ?B = sessions srv" "activeSessions ?B = activeSessions srv"
    using markAll_rest[OF run(5)] by simp_all
  have len: "length (attendances (snd (markAll check usr sess cid (m_today rq) (startTime doc) ?B rcs)))
               = length (attendances ?B)"
    by (rule markAll_again_length[OF _ run(5)]) (simp_all add: markAll_older[OF run(5)])
  show ?thesis
  proof (cases rule: markAttendance_cases[of check usr ?B rq])
    case noop
    with run(6) show ?thesis by simp
  next
    case (run sess' cid' doc' rcs' ress' s1' e')
    with \<open>m_sessionId rq = Some sess\<close> \<open>m_classId rq = Some cid\<close>
      \<open>recognizedStudents rq = Some rcs\<close>
      \<open>find (\<lambda>d. s_sessionId d = sess) (sessions srv) = Some doc\<close> rest
    have same: "sess' = sess" "cid' = cid" "rcs' = rcs" "doc' = doc" by simp_all
    from run(5,6) len \<open>snd (markAttendance check usr srv rq) = ?B\<close> show ?thesis
      unfolding same by simp
  qed
qed

lemma upsert_accept:
  "check upd = None \<Longrightarrow> \<exists>doc srv'. findOneAndUpdate check srv upd = Inr (doc, srv')"
  by (auto simp: findOneAndUpdate_def Let_def split: option.splits)

lemma markOne_accept:
  assumes "\<forall>a. check a = None"
  shows "\<exists>i l fs fc srv'. markOne check usr sess cid today start srv rc
           = (Saved (rq_studentId (fst rc)) i l fs fc, srv')"
proof -
  from upsert_accept[of check "scanUpdate usr sess cid today start srv rc" srv] assms
  obtain doc srv' where
    "findOneAndUpdate check srv (scanUpdate usr sess cid today start srv rc) = Inr (doc, srv')"
    by auto
  then show ?thesis
    by (simp add: markOne_def Let_def fields_scanUpdate)
qed

text \<open>Every entry saved by a batch has its key in the collection the batch leaves.\<close>

lemma markAll_saved_key:
  "markAll check usr sess cid today start srv rcs = (ress, srv') \<Longrightarrow>
   Saved s i l fs fc \<in> set ress \<Longrightarrow>
   (s, cid, today, sess) \<in> set (map keyOf (attendances srv'))"
proof (induction rcs arbitrary: srv ress srv')
  case Nil
  then show ?case by simp
next
  case (Cons rc rcs)
  obtain r1 s1 where one: "markOne check usr sess cid today start srv rc = (r1, s1)"
    by (cases "markOne check usr sess cid today start srv rc")
  obtain rs s2 where rest: "markAll check usr sess cid today start s1 rcs = (rs, s2)"
    by (cases "markAll check usr sess cid today start s1 rcs")
  from Cons.prems(1) one rest have eq: "ress = r1 # rs" "srv' = s2" by simp_all
  show ?case
  proof (cases "Saved s i l fs fc \<in> set rs")
    case True
    from Cons.IH[OF rest True] eq show ?thesis by simp
  next
    case False
    with Cons.prems(2) eq have r1: "r1 = Saved s i l fs fc" by simp
    from markOne_saved(2)[OF one[unfolded r1]] markOne_saved_key[OF one[unfolded r1]]
    have "(s, cid, today, sess) \<in> set (map keyOf (attendances s1))" by simp
    with markAll_grow[OF rest] eq show ?thesis by blast
  qed
qed

text \<open>When the store accepts every document, a batch saves each of its elements.\<close>

lemma markAll_accept:
  assumes "\<forall>a. check a = None"
  shows "markAll check usr sess cid today start srv rcs = (ress, srv') \<Longrightarrow>
         length ress = length rcs
         \<and> (\<forall>r \<in> set ress. \<exists>s i l fs fc. r = Saved s i l fs fc)
         \<and> (\<forall>rc \<in> set rcs. (rq_studentId (fst rc), cid, today, sess)
                                 \<in> set (map keyOf (attendances srv')))"
proof (induction rcs arbitrary: srv ress srv')
  case Nil
  then show ?case by auto
next
  case (Cons rc rcs)
  from markOne_accept[OF assms, of usr sess cid today start srv rc]
  obtain i l fs fc s1 where
    one: "markOne check usr sess cid today start srv rc
            = (Saved (rq_studentId (fst rc)) i l fs fc, s1)"
    by blast
  obtain rs s2 where rest: "markAll check usr sess cid today start s1 rcs = (rs, s2)"
    by (cases "markAll check usr sess cid today start s1 rcs")
  from Cons.prems one rest
  have eq: "ress = Saved (rq_studentId (fst rc)) i l fs fc # rs" "srv' = s2" by simp_all
  have "(rq_studentId (fst rc), cid, today, sess) \<in> set (map keyOf (attendances s1))"
    by (rule markOne_saved_key[OF one])
  with markAll_grow[OF rest]
  have "(rq_studentId (fst rc), cid, today, sess) \<in> set (map keyOf (attendances s2))"
    by blast
  with Cons.IH[OF rest] eq show ?case by auto
qed

text \<open>A well-formed call on an active session runs the batch.\<close>

lemma markAttendance_run:
  assumes "m_sessionId rq = Some sess" "sess \<noteq> []" "m_classId rq = Some cid" "cid \<noteq> []"
      and "recognizedStudents rq = Some rcs"
      and "map_of (activeSessions srv) sess = Some session"
      and "find (\<lambda>d. s_sessionId d = sess) (sessions srv) = Some doc"
      and "markAll check usr sess cid (m_today rq) (startTime doc) srv rcs = (ress, s1)"
  shows "fst (markAttendance check usr srv rq) = Json ress
       \<and> attendances (snd (markAttendance check usr srv rq)) = attendances s1"
  using assms by (simp add: markAttendance_def falsy_def Let_def)

text \<open>
  C1. The upsert of \<^const>\<open>markOne\<close> is keyed on (studentId, classId, date, sessionId).
  From a collection with one record per key: a well-formed \<^const>\<open>markAttendance\<close> call on
  an active session answers with its results, and after it the collection holds exactly
  one record under the key of every entry it reports as saved, which are all entries
  of the batch when the store accepts every document; that number stays one under any
  further sequence of calls; every sequence of calls leaves one record per key; and a
  call repeated with the same inputs leaves the number of records as the first call
  left it.
\<close>

theorem C1_one_record_per_key:
  assumes "uniqueKeys (attendances srv)"
      and "m_sessionId rq = Some sess" and "sess \<noteq> []"
      and "m_classId rq = Some cid" and "cid \<noteq> []"
      and "recognizedStudents rq = Some rcs"
      and "map_of (activeSessions srv) sess = Some session"
      and "find (\<lambda>d. s_sessionId d = sess) (sessions srv) = Some doc"
  shows "(\<exists>results. fst (markAttendance check usr srv rq) = Json results
            \<and> (\<forall>s i l fs fc. Saved s i l fs fc \<in> set results \<longrightarrow>
                  countKey s cid (m_today rq) sess
                    (attendances (snd (markAttendance check usr srv rq))) = 1
                  \<and> countKey s cid (m_today rq) sess
                      (attendances (markAttendances check2
                         (snd (markAttendance check usr srv rq)) rqs)) = 1)
            \<and> ((\<forall>a. check a = None) \<longrightarrow>
                  length results = length rcs
                  \<and> (\<forall>r \<in> set results. \<exists>s i l fs fc. r = Saved s i l fs fc)
                  \<and> (\<forall>rc \<in> set rcs.
                        countKey (rq_studentId (fst rc)) cid (m_today rq) sess
                          (attendances (snd (markAttendance check usr srv rq))) = 1)))
       \<and> uniqueKeys (attendances (markAttendances check2 srv rqs))
       \<and> length (attendances (snd (markAttendance check usr (snd (markAttendance check usr srv rq)) rq)))
           = length (attendances (snd (markAttendance check usr srv rq)))"
proof (intro conjI)
  let ?after = "snd (markAttendance check usr srv rq)"
  obtain ress s1 where
    m: "markAll check usr sess cid (m_today rq) (startTime doc) srv rcs = (ress, s1)"
    by (cases "markAll check usr sess cid (m_today rq) (startTime doc) srv rcs")
  note run = markAttendance_run[OF assms(2-8) m]
  have d1: "distinct (map keyOf (attendances ?after))"
    using markAll_grow[OF m] assms(1) run by (simp add: uniqueKeys_def)
  have d2: "distinct (map keyOf (attendances (markAttendances check2 ?after rqs)))"
    using markAttendances_grow[of ?after check2 rqs] d1 by simp
  have sub: "set (map keyOf (attendances ?after))
               \<subseteq> set (map keyOf (attendances (markAttendances check2 ?after rqs)))"
    using markAttendances_grow[of ?after check2 rqs] by simp
  have saved: "countKey s cid (m_today rq) sess (attendances ?after) = 1
               \<and> countKey s cid (m_today rq) sess
                    (attendances (markAttendances check2 ?after rqs)) = 1"
    if "Saved s i l fs fc \<in> set ress" for s i l fs fc
  proof -
    from markAll_saved_key[OF m that] run
    have k: "(s, cid, m_today rq, sess) \<in> set (map keyOf (attendances ?after))" by simp
    with sub have "(s, cid, m_today rq, sess)
                     \<in> set (map keyOf (attendances (markAttendances check2 ?after rqs)))"
      by blast
    with k countKey_distinct[OF d1] countKey_distinct[OF d2] show ?thesis by simp
  qed
  have acc: "length ress = length rcs
             \<and> (\<forall>r \<in> set ress. \<exists>s i l fs fc. r = Saved s i l fs fc)
             \<and> (\<forall>rc \<in> set rcs.
                   countKey (rq_studentId (fst rc)) cid (m_today rq) sess (attendances ?after) = 1)"
    if a: "\<forall>a. check a = None"
  proof -
    from markAll_accept[OF a m] run
    have "length ress = length rcs"
      "\<forall>r \<in> set ress. \<exists>s i l fs fc. r = Saved s i l fs fc"
      "\<forall>rc \<in> set rcs. (rq_studentId (fst rc), cid, m_today rq, sess)
                          \<in> set (map keyOf (attendances ?after))"
      by simp_all
    with countKey_distinct[OF d1] show ?thesis by simp
  qed
  show "\<exists>results. fst (markAttendance check usr srv rq) = Json results
            \<and> (\<forall>s i l fs fc. Saved s i l fs fc \<in> set results \<longrightarrow>
                  countKey s cid (m_today rq) sess (attendances ?after) = 1
                  \<and> countKey s cid (m_today rq) sess
                      (attendances (markAttendances check2 ?after rqs)) = 1)
            \<and> ((\<forall>a. check a = None) \<longrightarrow>
                  length results = length rcs
                  \<and> (\<forall>r \<in> set results. \<exists>s i l fs fc. r = Saved s i l fs fc)
                  \<and> (\<forall>rc \<in> set rcs.
                        countKey (rq_studentId (fst rc)) cid (m_today rq) sess
                          (attendances ?after) = 1))"
    using run saved acc by (intro exI[of _ ress]) blast
next
  show "uniqueKeys (attendances (markAttendances check2 srv rqs))"
    using assms(1) markAttendances_grow[of srv check2 rqs] by (simp add: uniqueKeys_def)
next
  show "length (attendances (snd (markAttendance check usr (snd (markAttendance check usr srv rq)) rq)))
           = length (attendances (snd (markAttendance check usr srv rq)))"
    by (rule markAttendance_twice_length)
qed

lemma isLate_iff: "isLate now start \<longleftrightarrow> now - start > 300000"
proof -
  have "(real_of_int (now - start) / (1000 * 60) > 5)
          = (real_of_int (now - start) > real_of_int 300000)"
    by (simp add: field_simps)
  also have "\<dots> = (now - start > 300000)"
    by (simp only: of_int_less_iff)
  finally show ?thesis
    by (simp add: isLate_def minutesLate_def LATE_THRESHOLD_MINUTES_def)
qed

text \<open>The concrete server is the one \<^const>\<open>startSession\<close> leaves behind.\<close>

lemma srv0_started:
  "snd (startSession lecturer1 (srv0\<lparr>sessions := [], activeSessions := []\<rparr>)
          (Some ''c1'') ''s1'' ''2024-05-02'' 0) = srv0"
  by (simp add: startSession_def srv0_def lecturer1_def falsy_def Let_def)

lemma scan4_saved:
  "markOne accept lecturer1 ''s1'' ''c1'' ''2024-05-02'' 0 srv0 scan4
     = (Saved ''st1'' 0 False ''present'' 0, srv1)"
  by (simp add: markOne_def scanUpdate_def findOneAndUpdate_def Let_def srv0_def srv1_def
        scan4_def student1_def lecturer1_def accept_def isLate_iff
        consecutiveLate_def previousAttendances_def priorRecords_def sortByDateDesc_def
        resolveStatus_def falsy_def matchesKey_def)

lemma request4_marked:
  "markAttendance accept lecturer1 srv0 request4
     = (Json [Saved ''st1'' 0 False ''present'' 0],
        srv1\<lparr>auditLog := [\<lparr>actorUserId = ''L1'', action = ''MARK_ATTENDANCE'',
                              au_sessionId = ''s1'', au_classId = ''c1'', au_count = 1\<rparr>]\<rparr>)"
proof -
  have "markAll accept lecturer1 ''s1'' ''c1'' ''2024-05-02'' 0 srv0 [scan4]
          = ([Saved ''st1'' 0 False ''present'' 0], srv1)"
    by (simp add: scan4_saved)
  then show ?thesis
    by (simp add: markAttendance_def request4_def falsy_def srv0_def srv1_def lecturer1_def
          Let_def)
qed

theorem C1_one_record_per_key_witness:
  "uniqueKeys (attendances srv0)
   \<and> m_sessionId request4 = Some ''s1'' \<and> m_classId request4 = Some ''c1''
   \<and> recognizedStudents request4 = Some [scan4]
   \<and> map_of (activeSessions srv0) ''s1''
       = Some \<lparr>a_classId = ''c1'', a_lecturerId = ''L1'', a_date = ''2024-05-02'', createdAt = 0\<rparr>
   \<and> attendances srv0 = []
   \<and> fst (markAttendance accept lecturer1 srv0 request4) = Json [Saved ''st1'' 0 False ''present'' 0]
   \<and> countKey ''st1'' ''c1'' ''2024-05-02'' ''s1''
        (attendances (snd (markAttendance accept lecturer1 srv0 request4))) = 1
   \<and> countKey ''st1'' ''c1'' ''2024-05-02'' ''s1''
        (attendances (markAttendances accept (snd (markAttendance accept lecturer1 srv0 request4))
           [(lecturer1, request4), (lecturer2, request4)])) = 1
   \<and> length (attendances (snd (markAttendance accept lecturer1
                 (snd (markAttendance accept lecturer1 srv0 request4)) request4))) = 1"
proof -
  have h1: "uniqueKeys (attendances srv0)"
    by (simp add: uniqueKeys_def srv0_def)
  have h2: "m_sessionId request4 = Some ''s1''" and h3: "''s1'' \<noteq> []"
    and h4: "m_classId request4 = Some ''c1''" and h5: "''c1'' \<noteq> []"
    and h6: "recognizedStudents request4 = Some [scan4]"
    by (simp_all add: request4_def)
  have h7: "map_of (activeSessions srv0) ''s1''
       = Some \<lparr>a_classId = ''c1'', a_lecturerId = ''L1'', a_date = ''2024-05-02'', createdAt = 0\<rparr>"
    by (simp add: srv0_def)
  have h8: "find (\<lambda>d. s_sessionId d = ''s1'') (sessions srv0)
       = Some \<lparr>s_sessionId = ''s1'', s_classId = ''c1'', s_lecturerId = ''L1'',
                startTime = 0, endTime = None, s_date = ''2024-05-02'',
                totalStudents = 1, s_status = ''active'',
                presentCount = 0, absentCount = 0, lateCount = 0\<rparr>"
    by (simp add: srv0_def)
  have t: "m_today request4 = ''2024-05-02''"
    by (simp add: request4_def)
  have e: "attendances srv0 = []"
    by (simp add: srv0_def)
  have f: "fst (markAttendance accept lecturer1 srv0 request4)
             = Json [Saved ''st1'' 0 False ''present'' 0]"
    by (simp add: request4_marked)
  have l: "length (attendances (snd (markAttendance accept lecturer1 srv0 request4))) = 1"
    by (simp add: request4_marked srv1_def)
  note C = C1_one_record_per_key[OF h1 h2 h3 h4 h5 h6 h7 h8, where check = accept
        and usr = lecturer1 and ?check2.0 = accept
        and rqs = "[(lecturer1, request4), (lecturer2, request4)]"]
  from C f t
  have c: "countKey ''st1'' ''c1'' ''2024-05-02'' ''s1''
             (attendances (snd (markAttendance accept lecturer1 srv0 request4))) = 1
           \<and> countKey ''st1'' ''c1'' ''2024-05-02'' ''s1''
               (attendances (markAttendances accept
                  (snd (markAttendance accept lecturer1 srv0 request4))
                  [(lecturer1, request4), (lecturer2, request4)])) = 1"
    by (auto simp del: markAttendances.simps)
  from C l
  have i: "length (attendances (snd (markAttendance accept lecturer1
                 (snd (markAttendance accept lecturer1 srv0 request4)) request4))) = 1"
    by (simp del: markAttendances.simps)
  show ?thesis
    using h1 h2 h4 h6 h7 e f c i by (simp del: markAttendances.simps)
qed

subsection \<open>Status resolution\<close>

lemma resolveStatus_late:
  assumes "falsy st \<or> st = Some ''present''"
  shows "resolveStatus st True c = (if c + 1 \<ge> 3 then (''absent'', 0) else (''late'', c + 1))"
proof (cases "falsy st")
  case True
  then show ?thesis by (simp add: resolveStatus_def MAX_CONSECUTIVE_LATE_def)
next
  case False
  with assms have "st = Some ''present''" by simp
  with False show ?thesis by (simp add: resolveStatus_def MAX_CONSECUTIVE_LATE_def Let_def)
qed

lemma resolveStatus_falsy:
  assumes "falsy st"
  shows "resolveStatus st late c =
           (if late then (if c + 1 \<ge> 3 then (''absent'', 0) else (''late'', c + 1))
            else (''present'', 0))"
  using assms by (simp add: resolveStatus_def MAX_CONSECUTIVE_LATE_def)

lemma markOne_stored:
  assumes "markOne check usr sess cid today start srv rc = (Saved s i l fs fc, srv')"
  shows "\<exists>doc. find (matchesKey (rq_studentId (fst rc)) cid today sess) (attendances srv') = Some doc
           \<and> aid doc = i \<and> status doc = fs \<and> consecutiveLateCount doc = fc"
proof -
  let ?upd = "scanUpdate usr sess cid today start srv rc"
  from markOne_saved(1)[OF assms] obtain doc where
    d: "findOneAndUpdate check srv ?upd = Inr (doc, srv')" "i = aid doc"
    by blast
  have "fs = status ?upd" "fc = consecutiveLateCount ?upd"
    using markOne_saved(4)[OF assms] fields_scanUpdate(4)[of usr sess cid today start srv rc]
    by (metis prod.inject)+
  with upsert_find[OF d(1)] d(2) show ?thesis
    by (simp add: fields_scanUpdate date_scanUpdate)
qed

text \<open>
  C2. A scan without explicit status (none, or the empty string), or with explicit
  status present, that is late:
  the streak read from the store is incremented; when the incremented streak reaches 3
  the final status is absent and the streak stored is 0, otherwise the final status is
  late and the incremented streak is stored. When the scan is saved, the record under
  its key carries this status and streak.
\<close>

theorem C2_late_escalation:
  assumes "falsy (rq_status r) \<or> rq_status r = Some ''present''"
      and "isLate (nowMs clk) start"
  shows "resolveStatus (rq_status r) (isLate (nowMs clk) start) c
           = (if c + 1 \<ge> 3 then (''absent'', 0) else (''late'', c + 1))
       \<and> (markOne check usr sess cid today start srv (r, clk) = (Saved s i l fs fc, srv') \<longrightarrow>
            (fs, fc) = (if consecutiveLate (attendances srv) (rq_studentId r) cid today + 1 \<ge> 3
                        then (''absent'', 0)
                        else (''late'', consecutiveLate (attendances srv) (rq_studentId r) cid today + 1))
            \<and> (\<exists>doc. find (matchesKey (rq_studentId r) cid today sess) (attendances srv') = Some doc
                   \<and> aid doc = i \<and> status doc = fs \<and> consecutiveLateCount doc = fc))"
proof (intro conjI impI)
  show "resolveStatus (rq_status r) (isLate (nowMs clk) start) c
           = (if c + 1 \<ge> 3 then (''absent'', 0) else (''late'', c + 1))"
    using assms resolveStatus_late by simp
next
  assume m: "markOne check usr sess cid today start srv (r, clk) = (Saved s i l fs fc, srv')"
  show "(fs, fc) = (if consecutiveLate (attendances srv) (rq_studentId r) cid today + 1 \<ge> 3
                        then (''absent'', 0)
                        else (''late'', consecutiveLate (attendances srv) (rq_studentId r) cid today + 1))"
    using markOne_saved(4)[OF m] assms resolveStatus_late by simp
  show "\<exists>doc. find (matchesKey (rq_studentId r) cid today sess) (attendances srv') = Some doc
                   \<and> aid doc = i \<and> status doc = fs \<and> consecutiveLateCount doc = fc"
    using markOne_stored[OF m] by simp
qed

lemma scan6_after_two_late:
  "fst (markOne accept lecturer1 ''s1'' ''c1'' ''2024-05-02'' 0 srvLate2 scan6)
     = Saved ''st1'' 2 True ''absent'' 0"
  by (simp add: markOne_def scanUpdate_def findOneAndUpdate_def Let_def srv0_def srvLate2_def
        scan6_def student1_def lecturer1_def accept_def isLate_iff history2_def lateOn_def
        consecutiveLate_def previousAttendances_def priorRecords_def sortByDateDesc_def
        resolveStatus_def falsy_def matchesKey_def MAX_CONSECUTIVE_LATE_def)

theorem C2_late_escalation_witness:
  "(falsy (rq_status student1) \<or> rq_status student1 = Some ''present'')
   \<and> isLate 360000 0
   \<and> fst (markOne accept lecturer1 ''s1'' ''c1'' ''2024-05-02'' 0 srvLate2 scan6)
       = Saved ''st1'' 2 True ''absent'' 0
   \<and> consecutiveLate (attendances srvLate2) ''st1'' ''c1'' ''2024-05-02'' = 2
   \<and> resolveStatus None True 2 = (''absent'', 0)
   \<and> (\<exists>doc. find (matchesKey ''st1'' ''c1'' ''2024-05-02'' ''s1'')
                (attendances (snd (markOne accept lecturer1 ''s1'' ''c1'' ''2024-05-02'' 0 srvLate2 scan6)))
              = Some doc
            \<and> aid doc = 2 \<and> status doc = ''absent'' \<and> consecutiveLateCount doc = 0)"
proof -
  have h1: "falsy (rq_status student1) \<or> rq_status student1 = Some ''present''"
    by (simp add: student1_def falsy_def)
  have h2: "isLate (nowMs \<lparr>nowMs = 360000, nowTime = ''09:06:00''\<rparr>) 0"
    by (simp add: isLate_iff)
  have h3: "markOne accept lecturer1 ''s1'' ''c1'' ''2024-05-02'' 0 srvLate2
              (student1, \<lparr>nowMs = 360000, nowTime = ''09:06:00''\<rparr>)
            = (Saved ''st1'' 2 True ''absent'' 0,
               snd (markOne accept lecturer1 ''s1'' ''c1'' ''2024-05-02'' 0 srvLate2 scan6))"
    using scan6_after_two_late by (metis prod.collapse scan6_def)
  have c: "consecutiveLate (attendances srvLate2) ''st1'' ''c1'' ''2024-05-02'' = 2"
    by (simp add: srvLate2_def srv0_def history2_def lateOn_def consecutiveLate_def
          previousAttendances_def priorRecords_def sortByDateDesc_def)
  have st: "rq_studentId student1 = ''st1''" "rq_status student1 = None"
    by (simp_all add: student1_def)
  show ?thesis
    using h1 h2 h3 c st scan6_after_two_late
      C2_late_escalation[OF h1 h2, where c = 2 and check = accept and usr = lecturer1
        and sess = "''s1''" and cid = "''c1''" and today = "''2024-05-02''" and srv = srvLate2
        and s = "''st1''" and i = 2 and l = True and fs = "''absent''" and fc = 0
        and srv' = "snd (markOne accept lecturer1 ''s1'' ''c1'' ''2024-05-02'' 0 srvLate2 scan6)"]
    by simp
qed

text \<open>
  C3. For a scan without explicit status that is saved, the lateness reported is
  \<open>(now - startTime) / 60000 > 5\<close>, that is, more than 300000 milliseconds after the
  start; a scan that is not late is present with streak 0 and a late one is late or
  absent; four minutes after the start the scan is present with streak 0, and six
  minutes after it, with no late streak before, it is late.
\<close>

theorem C3_late_threshold:
  assumes "falsy (rq_status r)"
      and "markOne check usr sess cid today start srv (r, clk) = (Saved s i l fs fc, srv')"
  shows "l = (real_of_int (nowMs clk - start) / 60000 > 5)
       \<and> l = (nowMs clk - start > 300000)
       \<and> (\<not> l \<longrightarrow> fs = ''present'' \<and> fc = 0)
       \<and> (l \<longrightarrow> fs = ''late'' \<or> fs = ''absent'')
       \<and> (nowMs clk = start + 4 * 60000 \<longrightarrow> fs = ''present'' \<and> fc = 0)
       \<and> (nowMs clk = start + 6 * 60000
            \<and> consecutiveLate (attendances srv) (rq_studentId r) cid today = 0
          \<longrightarrow> fs = ''late'' \<and> fc = 1)"
proof -
  have l: "l = isLate (nowMs clk) start"
    using markOne_saved(3)[OF assms(2)] by simp
  have r: "(fs, fc) = resolveStatus (rq_status r) l
                        (consecutiveLate (attendances srv) (rq_studentId r) cid today)"
    using markOne_saved(4)[OF assms(2)] l by simp
  have "l = (real_of_int (nowMs clk - start) / 60000 > 5)"
    by (simp add: l isLate_def minutesLate_def LATE_THRESHOLD_MINUTES_def)
  moreover have l3: "l = (nowMs clk - start > 300000)"
    by (simp add: l isLate_iff)
  moreover have "\<not> l \<longrightarrow> fs = ''present'' \<and> fc = 0"
    using r resolveStatus_falsy[OF assms(1)] by (auto split: if_splits)
  moreover have "l \<longrightarrow> fs = ''late'' \<or> fs = ''absent''"
    using r resolveStatus_falsy[OF assms(1)] by (auto split: if_splits)
  moreover have "nowMs clk = start + 4 * 60000 \<longrightarrow> fs = ''present'' \<and> fc = 0"
    using r l3 resolveStatus_falsy[OF assms(1)] by (auto split: if_splits)
  moreover have "nowMs clk = start + 6 * 60000
            \<and> consecutiveLate (attendances srv) (rq_studentId r) cid today = 0
          \<longrightarrow> fs = ''late'' \<and> fc = 1"
    using r l3 resolveStatus_falsy[OF assms(1)] by (auto split: if_splits)
  ultimately show ?thesis by blast
qed

lemma scan6_first:
  "fst (markOne accept lecturer1 ''s1'' ''c1'' ''2024-05-02'' 0 srv0 scan6)
     = Saved ''st1'' 0 True ''late'' 1"
  by (simp add: markOne_def scanUpdate_def findOneAndUpdate_def Let_def srv0_def
        scan6_def student1_def lecturer1_def accept_def isLate_iff
        consecutiveLate_def previousAttendances_def priorRecords_def sortByDateDesc_def
        resolveStatus_def falsy_def matchesKey_def MAX_CONSECUTIVE_LATE_def)

theorem C3_late_threshold_witness:
  "falsy (rq_status student1)
   \<and> fst (markOne accept lecturer1 ''s1'' ''c1'' ''2024-05-02'' 0 srv0 scan4)
       = Saved ''st1'' 0 False ''present'' 0
   \<and> fst (markOne accept lecturer1 ''s1'' ''c1'' ''2024-05-02'' 0 srv0 scan6)
       = Saved ''st1'' 0 True ''late'' 1
   \<and> nowMs (snd scan4) = 0 + 4 * 60000 \<and> nowMs (snd scan6) = 0 + 6 * 60000
   \<and> consecutiveLate (attendances srv0) (rq_studentId student1) ''c1'' ''2024-05-02'' = 0
   \<and> False = (real_of_int (nowMs (snd scan4) - 0) / 60000 > 5)
   \<and> True = (real_of_int (nowMs (snd scan6) - 0) / 60000 > 5)"
proof -
  have h1: "falsy (rq_status student1)"
    by (simp add: student1_def falsy_def)
  have h4: "markOne accept lecturer1 ''s1'' ''c1'' ''2024-05-02'' 0 srv0
              (student1, snd scan4) = (Saved ''st1'' 0 False ''present'' 0, srv1)"
    using scan4_saved by (simp add: scan4_def)
  have h6: "markOne accept lecturer1 ''s1'' ''c1'' ''2024-05-02'' 0 srv0
              (student1, snd scan6)
            = (Saved ''st1'' 0 True ''late'' 1,
               snd (markOne accept lecturer1 ''s1'' ''c1'' ''2024-05-02'' 0 srv0 scan6))"
    using scan6_first by (metis prod.collapse scan6_def snd_conv)
  have c: "consecutiveLate (attendances srv0) (rq_studentId student1) ''c1'' ''2024-05-02'' = 0"
    by (simp add: srv0_def consecutiveLate_def previousAttendances_def priorRecords_def
          sortByDateDesc_def)
  have t: "nowMs (snd scan4) = 0 + 4 * 60000" "nowMs (snd scan6) = 0 + 6 * 60000"
    by (simp_all add: scan4_def scan6_def)
  show ?thesis
    using h1 c t scan4_saved scan6_first
      C3_late_threshold[OF h1 h4] C3_late_threshold[OF h1 h6]
    by simp
qed

subsection \<open>The streak read from the store\<close>

lemma countLeadingLate_takeWhile:
  "countLeadingLate xs = length (takeWhile (\<lambda>a. status a = ''late'') xs)"
  by (induction xs) auto

lemma takeWhile_take_commute: "takeWhile P (take n xs) = take n (takeWhile P xs)"
proof (induction xs arbitrary: n)
  case Nil
  then show ?case by simp
next
  case (Cons x xs)
  then show ?case by (cases n) auto
qed

lemma resolveStatus_capped:
  "fst (resolveStatus st late (min 3 n)) = fst (resolveStatus st late n)"
  by (auto simp: resolveStatus_def MAX_CONSECUTIVE_LATE_def Let_def)

text \<open>
  C4, as amended. The query reads at most the three most recent records of earlier
  dates, so the streak used is the number of leading late records among all earlier
  records, most recent first, capped at 3. The cap never changes the final status.
\<close>

theorem C4_streak_capped:
  "consecutiveLate coll sid cid today = min 3 (specStreak coll sid cid today)
   \<and> fst (resolveStatus st late (consecutiveLate coll sid cid today))
       = fst (resolveStatus st late (specStreak coll sid cid today))"
proof -
  have "consecutiveLate coll sid cid today = min 3 (specStreak coll sid cid today)"
    by (simp add: consecutiveLate_def previousAttendances_def specStreak_def
          countLeadingLate_takeWhile takeWhile_take_commute min.commute)
  then show ?thesis
    by (simp add: resolveStatus_capped)
qed

text \<open>
  With four late records on the four days before, the streak used is 3, not the 4 that
  a walk over all earlier records counts.
\<close>

theorem C4_counterexample:
  "consecutiveLate history4 ''st1'' ''c1'' ''2024-05-02'' = 3
   \<and> specStreak history4 ''st1'' ''c1'' ''2024-05-02'' = 4"
  by (simp add: consecutiveLate_def previousAttendances_def specStreak_def priorRecords_def
        sortByDateDesc_def history4_def lateOn_def)

subsection \<open>Ending a session\<close>

text \<open>
  C5, as amended. For a session id that is not in the active-session table,
  \<^const>\<open>endSession\<close> leaves the whole server as it is; it answers 404 when the id is not
  empty, and 400 when the id is empty or missing.
\<close>

theorem C5_unknown_session_no_writes:
  assumes "map_of (activeSessions srv) sid = None"
  shows "endSession usr srv (Some sid) now
           = (if sid = [] then Status400 ''Session ID is required''
              else Status404 ''Session not found'', srv)
       \<and> endSession usr srv None now = (Status400 ''Session ID is required'', srv)"
  using assms by (simp add: endSession_def falsy_def)

theorem C5_unknown_session_no_writes_witness:
  "map_of (activeSessions srv0) ''s2'' = None
   \<and> endSession lecturer1 srv0 (Some ''s2'') 900000 = (Status404 ''Session not found'', srv0)"
proof -
  have h: "map_of (activeSessions srv0) ''s2'' = None"
    by (simp add: srv0_def)
  show ?thesis
    using h C5_unknown_session_no_writes[OF h, of lecturer1 900000] by simp
qed

text \<open>The empty session id is not in the table, and the answer is 400, not 404.\<close>

theorem C5_counterexample:
  "\<not> (map_of (activeSessions srv0) [] = None \<longrightarrow>
        fst (endSession lecturer1 srv0 (Some []) 900000) = Status404 ''Session not found'')"
  by (simp add: endSession_def falsy_def srv0_def)

subsection \<open>Manual override\<close>

lemma find_updateFirst_id:
  "find (\<lambda>a. aid a = i) xs = Some a \<Longrightarrow> aid (f a) = i \<Longrightarrow>
   find (\<lambda>a. aid a = i) (updateFirst (\<lambda>a. aid a = i) f xs) = Some (f a)"
  by (rule find_updateFirst)

lemma updateFirst_changes:
  "find p xs = Some a \<Longrightarrow> f a \<noteq> a \<Longrightarrow> updateFirst p f xs \<noteq> xs"
  by (induction xs) (auto split: if_splits)

text \<open>
  C10, as amended. The access check of \<^const>\<open>manualOverride\<close> compares the requester with
  the \<^verbatim>\<open>lecturerId\<close> stored in the record, and runs after the update. For a lecturer
  whose id differs from the one stored in an existing record, the answer is 403 and the
  record carries the new status (and remark) all the same; when the status differs from
  the old one, the collection has changed.
\<close>

theorem C10_override_before_check:
  assumes "role usr = ''lecturer''"
      and "find (\<lambda>a. aid a = i) (attendances srv) = Some a"
      and "lecturerId a \<noteq> uid usr"
      and "st \<in> set [''present'', ''absent'', ''late'', ''excused'']"
  shows "manualOverride omitUndefined usr srv (Some i) (Some st) rm
           = (Status403 ''Access denied'',
              srv\<lparr>attendances :=
                    updateFirst (\<lambda>a. aid a = i) (applyOverride omitUndefined st rm) (attendances srv)\<rparr>)
       \<and> find (\<lambda>a. aid a = i)
            (attendances (snd (manualOverride omitUndefined usr srv (Some i) (Some st) rm)))
           = Some (applyOverride omitUndefined st rm a)
       \<and> status (applyOverride omitUndefined st rm a) = st
       \<and> (status a \<noteq> st \<longrightarrow>
            attendances (snd (manualOverride omitUndefined usr srv (Some i) (Some st) rm))
              \<noteq> attendances srv)"
proof -
  have ne: "\<not> falsy (Some st)"
    using assms(4) by (auto simp: falsy_def)
  have m: "manualOverride omitUndefined usr srv (Some i) (Some st) rm
           = (Status403 ''Access denied'',
              srv\<lparr>attendances :=
                    updateFirst (\<lambda>a. aid a = i) (applyOverride omitUndefined st rm) (attendances srv)\<rparr>)"
    using assms ne by (simp add: manualOverride_def findByIdAndUpdate_def applyOverride_def)
  have i: "aid a = i"
    using assms(2) by (induction "attendances srv" arbitrary: srv) (auto simp: find_Some_iff)
  have f: "find (\<lambda>a. aid a = i)
             (updateFirst (\<lambda>a. aid a = i) (applyOverride omitUndefined st rm) (attendances srv))
           = Some (applyOverride omitUndefined st rm a)"
    by (rule find_updateFirst_id[OF assms(2)]) (simp add: applyOverride_def i)
  have c: "status a \<noteq> st \<longrightarrow>
             updateFirst (\<lambda>a. aid a = i) (applyOverride omitUndefined st rm) (attendances srv)
               \<noteq> attendances srv"
  proof
    assume "status a \<noteq> st"
    then have "status (applyOverride omitUndefined st rm a) \<noteq> status a"
      by (simp add: applyOverride_def)
    then have "applyOverride omitUndefined st rm a \<noteq> a"
      by auto
    from updateFirst_changes[of "\<lambda>a. aid a = i" "attendances srv" a
           "applyOverride omitUndefined st rm", OF assms(2) this]
    show "updateFirst (\<lambda>a. aid a = i) (applyOverride omitUndefined st rm) (attendances srv)
            \<noteq> attendances srv" .
  qed
  show ?thesis
    using m f c by (simp add: applyOverride_def)
qed

theorem C10_override_before_check_witness:
  "role lecturer1 = ''lecturer''
   \<and> find (\<lambda>a. aid a = 0) (attendances srvReassigned)
       = Some ((lateOn 0 ''2024-05-01'')\<lparr>lecturerId := ''L2''\<rparr>)
   \<and> lecturerId ((lateOn 0 ''2024-05-01'')\<lparr>lecturerId := ''L2''\<rparr>) \<noteq> uid lecturer1
   \<and> ''present'' \<in> set [''present'', ''absent'', ''late'', ''excused'']
   \<and> fst (manualOverride True lecturer1 srvReassigned (Some 0) (Some ''present'') None)
       = Status403 ''Access denied''
   \<and> map status (attendances srvReassigned) = [''late'']
   \<and> map status (attendances
        (snd (manualOverride True lecturer1 srvReassigned (Some 0) (Some ''present'') None)))
       = [''present'']"
proof -
  have h1: "role lecturer1 = ''lecturer''"
    by (simp add: lecturer1_def)
  have h2: "find (\<lambda>a. aid a = 0) (attendances srvReassigned)
              = Some ((lateOn 0 ''2024-05-01'')\<lparr>lecturerId := ''L2''\<rparr>)"
    by (simp add: srvReassigned_def srv0_def lateOn_def)
  have h3: "lecturerId ((lateOn 0 ''2024-05-01'')\<lparr>lecturerId := ''L2''\<rparr>) \<noteq> uid lecturer1"
    by (simp add: lecturer1_def)
  have h4: "''present'' \<in> set [''present'', ''absent'', ''late'', ''excused'']"
    by simp
  show ?thesis
    using h1 h2 h3 C10_override_before_check[OF h1 h2 h3 h4, of True None]
    by (simp add: srvReassigned_def srv0_def lateOn_def applyOverride_def)
qed

text \<open>
  Lecturer L2 does not own class c1, yet the override of a record of c1 that carries
  L2 as its lecturer is answered with the updated record, not with 403.
\<close>

theorem C10_counterexample:
  "role lecturer2 = ''lecturer''
   \<and> find (\<lambda>a. aid a = 0) (attendances srvReassigned)
       = Some ((lateOn 0 ''2024-05-01'')\<lparr>lecturerId := ''L2''\<rparr>)
   \<and> \<not> ownsClass srvReassigned lecturer2 (classId ((lateOn 0 ''2024-05-01'')\<lparr>lecturerId := ''L2''\<rparr>))
   \<and> fst (manualOverride True lecturer2 srvReassigned (Some 0) (Some ''present'') None)
       = Json ((lateOn 0 ''2024-05-01'')\<lparr>lecturerId := ''L2'', status := ''present''\<rparr>)"
  by (simp add: manualOverride_def findByIdAndUpdate_def applyOverride_def falsy_def
        srvReassigned_def srv0_def lateOn_def lecturer2_def ownsClass_def)

section \<open>Properties of the liveness detectors\<close>

lemma reset_fresh:
  "blinkDetector (reset rn) = createBlinkDetector"
  "smileDetector (reset rn) = createSmileDetector"
  by (simp_all add: reset_def createBlinkDetector_def createSmileDetector_def)

subsection \<open>Blink detector\<close>

lemma blinkUpdate_closed:
  "closedReading A (avgEAR A lm) \<Longrightarrow>
   blinkUpdate A st lm f = st\<lparr>closedFrameCount := closedFrameCount st + 1, wasClosed := True\<rparr>"
  by (simp add: blinkUpdate_def Let_def EAR_CLOSED_THRESHOLD_def closedReading_def)

lemma blinkUpdate_between:
  "\<not> closedReading A (avgEAR A lm) \<Longrightarrow> \<not> openReading A (avgEAR A lm) \<Longrightarrow>
   blinkUpdate A st lm f = st"
  by (simp add: blinkUpdate_def Let_def EAR_CLOSED_THRESHOLD_def EAR_OPEN_THRESHOLD_def
        closedReading_def openReading_def)

lemma blinkUpdate_open:
  "openReading A (avgEAR A lm) \<Longrightarrow>
   wasClosed (blinkUpdate A st lm f) = False \<and> closedFrameCount (blinkUpdate A st lm f) = 0"
  by (simp add: blinkUpdate_def Let_def EAR_CLOSED_THRESHOLD_def EAR_OPEN_THRESHOLD_def
        openReading_def)

lemma blinkUpdate_count:
  "blinkCount (blinkUpdate A st lm f) =
     (if openReading A (avgEAR A lm) \<and> wasClosed st \<and> closedFrameCount st \<ge> 2
         \<and> f - lastBlinkFrame st > 3
      then blinkCount st + 1 else blinkCount st)"
  by (simp add: blinkUpdate_def Let_def EAR_CLOSED_THRESHOLD_def EAR_OPEN_THRESHOLD_def
        BLINK_DEBOUNCE_FRAMES_def openReading_def)

lemma blinkUpdate_last:
  "lastBlinkFrame (blinkUpdate A st lm f) =
     (if blinkCount (blinkUpdate A st lm f) = blinkCount st + 1 then f else lastBlinkFrame st)"
  by (simp add: blinkUpdate_def Let_def EAR_CLOSED_THRESHOLD_def EAR_OPEN_THRESHOLD_def
        BLINK_DEBOUNCE_FRAMES_def)

lemma blinkUpdate_history:
  assumes "closedFrameCount st = closedSinceOpen A es"
      and "wasClosed st = (closedSinceOpen A es > 0)"
  shows "closedFrameCount (blinkUpdate A st lm f) = closedSinceOpen A (avgEAR A lm # es)
       \<and> wasClosed (blinkUpdate A st lm f) = (closedSinceOpen A (avgEAR A lm # es) > 0)"
proof -
  consider (closed) "closedReading A (avgEAR A lm)"
    | (between) "\<not> closedReading A (avgEAR A lm)" "\<not> openReading A (avgEAR A lm)"
    | (opened) "\<not> closedReading A (avgEAR A lm)" "openReading A (avgEAR A lm)"
    by blast
  then show ?thesis
  proof cases
    case closed
    then show ?thesis using assms by (simp add: blinkUpdate_closed)
  next
    case between
    then show ?thesis using assms by (simp add: blinkUpdate_between)
  next
    case opened
    then show ?thesis using blinkUpdate_open[OF opened(2), of st f] by simp
  qed
qed

lemma blinkRun_snoc:
  "blinkRun A st (frames @ [(lm, f)]) = blinkUpdate A (blinkRun A st frames) lm f"
  by (induction A st frames rule: blinkRun.induct) auto

lemma blinkRun_history:
  "closedFrameCount (blinkRun A createBlinkDetector frames)
     = closedSinceOpen A (earHistory A frames)
   \<and> wasClosed (blinkRun A createBlinkDetector frames)
       = (closedSinceOpen A (earHistory A frames) > 0)"
proof (induction frames rule: rev_induct)
  case Nil
  then show ?case by (simp add: createBlinkDetector_def earHistory_def)
next
  case (snoc x frames)
  obtain lm f where x: "x = (lm, f)" by (cases x)
  have "earHistory A (frames @ [(lm, f)]) = avgEAR A lm # earHistory A frames"
    by (simp add: earHistory_def)
  with blinkUpdate_history[of "blinkRun A createBlinkDetector frames" A "earHistory A frames" lm f]
    snoc
  show ?case by (simp add: x blinkRun_snoc)
qed

lemma blinkRun_count:
  "blinkCount (blinkRun A st frames) = blinkCount st + length (blinkFrames A st frames)"
proof (induction A st frames rule: blinkFrames.induct)
  case (1 A st)
  then show ?case by simp
next
  case (2 A st lm f frames)
  then show ?case by (simp add: blinkUpdate_count)
qed

text \<open>The frame the detector remembers is that of the last blink it counted.\<close>

lemma blinkRun_last:
  "lastBlinkFrame (blinkRun A st frames) = last (lastBlinkFrame st # blinkFrames A st frames)"
proof (induction A st frames rule: blinkFrames.induct)
  case (1 A st)
  then show ?case by simp
next
  case (2 A st lm f frames)
  then show ?case by (simp add: blinkUpdate_last)
qed

lemma blinkFrames_spaced: "spaced (lastBlinkFrame st) (blinkFrames A st frames)"
proof (induction A st frames rule: blinkFrames.induct)
  case (1 A st)
  then show ?case by simp
next
  case (2 A st lm f frames)
  show ?case
  proof (cases "blinkCount (blinkUpdate A st lm f) = blinkCount st + 1")
    case True
    then have "f - lastBlinkFrame st > 3"
      by (simp add: blinkUpdate_count split: if_splits)
    moreover have "lastBlinkFrame (blinkUpdate A st lm f) = f"
      using True by (simp add: blinkUpdate_last)
    ultimately show ?thesis using 2 True by simp
  next
    case False
    then have "lastBlinkFrame (blinkUpdate A st lm f) = lastBlinkFrame st"
      by (simp add: blinkUpdate_last)
    then show ?thesis using 2 False by simp
  qed
qed

text \<open>
  C6, as amended. In the arithmetic of the program, a reading is closed when its
  average EAR is below 0.18 and open when it is above 0.25; every other reading leaves
  the detector as it is. A detector is fresh when made and after \<^verbatim>\<open>reset\<close>. In every
  sequence of readings fed to a fresh detector, a blink is counted at a reading exactly
  when the reading is open, at least 2 closed readings have come since the last open
  one, and the frame index is more than 3 above that of the blink counted last (above
  -4 when there is none). The frame the detector remembers is that of the blink
  counted last, the blinks counted are more than 3 frames apart, and their number is
  the count the detector reports.
\<close>

theorem C6_blink_counting:
  "blinkDetector (reset rn) = createBlinkDetector
   \<and> blinkCount (blinkRun A createBlinkDetector (frames @ [(lm, f)]))
       = blinkCount (blinkRun A createBlinkDetector frames)
         + (if openReading A (avgEAR A lm) \<and> closedSinceOpen A (earHistory A frames) \<ge> 2
               \<and> f - last (- 4 # blinkFrames A createBlinkDetector frames) > 3
            then 1 else 0)
   \<and> (\<not> closedReading A (avgEAR A lm) \<and> \<not> openReading A (avgEAR A lm) \<longrightarrow>
        blinkRun A createBlinkDetector (frames @ [(lm, f)]) = blinkRun A createBlinkDetector frames)
   \<and> lastBlinkFrame (blinkRun A createBlinkDetector frames)
       = last (- 4 # blinkFrames A createBlinkDetector frames)
   \<and> blinkCount (blinkRun A createBlinkDetector frames)
       = length (blinkFrames A createBlinkDetector frames)
   \<and> spaced (- 4) (blinkFrames A createBlinkDetector frames)"
proof (intro conjI impI)
  let ?st = "blinkRun A createBlinkDetector frames"
  show "blinkDetector (reset rn) = createBlinkDetector"
    by (rule reset_fresh)
  have l: "lastBlinkFrame ?st = last (- 4 # blinkFrames A createBlinkDetector frames)"
    using blinkRun_last[of A createBlinkDetector frames]
    by (simp add: createBlinkDetector_def BLINK_DEBOUNCE_FRAMES_def)
  then show "lastBlinkFrame ?st = last (- 4 # blinkFrames A createBlinkDetector frames)" .
  have "closedSinceOpen A (earHistory A frames) \<ge> 2
          \<longleftrightarrow> wasClosed ?st \<and> closedFrameCount ?st \<ge> 2"
    using blinkRun_history[of A frames] by auto
  then show "blinkCount (blinkRun A createBlinkDetector (frames @ [(lm, f)]))
     = blinkCount ?st
       + (if openReading A (avgEAR A lm) \<and> closedSinceOpen A (earHistory A frames) \<ge> 2
             \<and> f - last (- 4 # blinkFrames A createBlinkDetector frames) > 3
          then 1 else 0)"
    unfolding l[symmetric] by (simp add: blinkRun_snoc blinkUpdate_count)
next
  assume "\<not> closedReading A (avgEAR A lm) \<and> \<not> openReading A (avgEAR A lm)"
  then show "blinkRun A createBlinkDetector (frames @ [(lm, f)])
               = blinkRun A createBlinkDetector frames"
    by (simp add: blinkRun_snoc blinkUpdate_between)
next
  show "blinkCount (blinkRun A createBlinkDetector frames)
          = length (blinkFrames A createBlinkDetector frames)"
    by (simp add: blinkRun_count createBlinkDetector_def)
next
  show "spaced (- 4) (blinkFrames A createBlinkDetector frames)"
    using blinkFrames_spaced[of createBlinkDetector A frames]
    by (simp add: createBlinkDetector_def BLINK_DEBOUNCE_FRAMES_def)
qed

text \<open>The concrete arithmetic, field by field.\<close>

lemma exact64_ops:
  "n_lit exact64 ''0.18'' = d018" "n_lit exact64 ''0.12'' = d012" "n_lit exact64 ''1.15'' = d115"
  "n_lit exact64 ''0.25'' = 1 / 4" "n_lit exact64 ''30'' = 30" "n_lit exact64 ''2'' = 2"
  "n_lit exact64 ''1'' = 1"
  "n_add exact64 a b = a + b" "n_sub exact64 a b = a - b" "n_mul exact64 a b = a * b"
  "n_div exact64 a b = a / b" "n_abs exact64 a = \<bar>a\<bar>" "n_max exact64 a b = max a b"
  "n_hypot exact64 a b = sqrt (a * a + b * b)"
  "n_lt exact64 a b = (a < b)" "n_gt exact64 a b = (a > b)"
  "n_le exact64 a b = (a \<le> b)" "n_ge exact64 a b = (a \<ge> b)"
  "n_falsy exact64 a = (a = 0)"
  by (simp_all add: exact64_def)

lemma calculateEAR_eye: "calculateEAR exact64 (Some (eye h)) = \<bar>h\<bar> / 2"
  by (simp add: calculateEAR_def eye_def Let_def exact64_ops)

lemma avgEAR_face: "avgEAR exact64 (face h n w) = \<bar>h\<bar> / 2"
  by (simp add: avgEAR_def face_def calculateEAR_eye exact64_ops)

lemma avgEAR_concrete:
  "avgEAR exact64 shut = 0" "avgEAR exact64 wide = 1/2" "avgEAR exact64 quarter = 1/4"
  "avgEAR exact64 edge18 = d018"
  by (simp_all add: shut_def wide_def quarter_def edge18_def avgEAR_face d018_def)

lemma readings_concrete:
  "closedReading exact64 0" "\<not> openReading exact64 0"
  "\<not> closedReading exact64 (1/2)" "openReading exact64 (1/2)"
  "\<not> closedReading exact64 (1/4)" "\<not> openReading exact64 (1/4)"
  "\<not> closedReading exact64 d018" "\<not> openReading exact64 d018"
  by (simp_all add: closedReading_def openReading_def exact64_ops d018_def)

theorem C6_blink_counting_witness:
  "\<not> closedReading exact64 (avgEAR exact64 quarter) \<and> \<not> openReading exact64 (avgEAR exact64 quarter)
   \<and> \<not> closedReading exact64 (avgEAR exact64 edge18) \<and> \<not> openReading exact64 (avgEAR exact64 edge18)
   \<and> blinkRun exact64 createBlinkDetector ([(shut, 1), (shut, 2)] @ [(quarter, 3)])
       = blinkRun exact64 createBlinkDetector [(shut, 1), (shut, 2)]
   \<and> blinkRun exact64 createBlinkDetector ([] @ [(edge18, 1)])
       = blinkRun exact64 createBlinkDetector []
   \<and> blinkCount (blinkRun exact64 createBlinkDetector ([(shut, 1), (shut, 2)] @ [(wide, 3)])) = 1"
proof -
  have e: "closedSinceOpen exact64 (earHistory exact64 [(shut, 1), (shut, 2)]) = 2"
    by (simp add: earHistory_def avgEAR_concrete readings_concrete)
  have s: "blinkRun exact64 createBlinkDetector [(shut, 1), (shut, 2)]
             = \<lparr>blinkCount = 0, wasClosed = True, closedFrameCount = 2, lastBlinkFrame = - 4\<rparr>"
    by (simp add: blinkUpdate_closed avgEAR_concrete readings_concrete createBlinkDetector_def
          BLINK_DEBOUNCE_FRAMES_def)
  have b: "blinkFrames exact64 createBlinkDetector [(shut, 1), (shut, 2)] = []"
    by (simp add: blinkUpdate_closed avgEAR_concrete readings_concrete)
  note Cq = C6_blink_counting[of "createChallengeRunner :: real runner" exact64 "[(shut, 1), (shut, 2)]" quarter 3]
  note Ce = C6_blink_counting[of "createChallengeRunner :: real runner" exact64 "[]" edge18 1]
  note Cw = C6_blink_counting[of "createChallengeRunner :: real runner" exact64 "[(shut, 1), (shut, 2)]" wide 3]
  have q: "\<not> closedReading exact64 (avgEAR exact64 quarter)"
    "\<not> openReading exact64 (avgEAR exact64 quarter)"
    "\<not> closedReading exact64 (avgEAR exact64 edge18)"
    "\<not> openReading exact64 (avgEAR exact64 edge18)"
    "openReading exact64 (avgEAR exact64 wide)"
    by (simp_all add: avgEAR_concrete readings_concrete)
  from Cq q have r1: "blinkRun exact64 createBlinkDetector ([(shut, 1), (shut, 2)] @ [(quarter, 3)])
       = blinkRun exact64 createBlinkDetector [(shut, 1), (shut, 2)]"
    by blast
  from Ce q have r2: "blinkRun exact64 createBlinkDetector ([] @ [(edge18, 1)])
       = blinkRun exact64 createBlinkDetector []"
    by blast
  from Cw have "blinkCount (blinkRun exact64 createBlinkDetector ([(shut, 1), (shut, 2)] @ [(wide, 3)]))
       = blinkCount (blinkRun exact64 createBlinkDetector [(shut, 1), (shut, 2)])
         + (if openReading exact64 (avgEAR exact64 wide)
               \<and> closedSinceOpen exact64 (earHistory exact64 [(shut, 1), (shut, 2)]) \<ge> 2
               \<and> 3 - last (- 4 # blinkFrames exact64 createBlinkDetector [(shut, 1), (shut, 2)]) > 3
            then 1 else 0)"
    by blast
  then have r3: "blinkCount (blinkRun exact64 createBlinkDetector ([(shut, 1), (shut, 2)] @ [(wide, 3)])) = 1"
    unfolding e s b using q by simp
  show ?thesis
    using q r1 r2 r3 by blast
qed

text \<open>
  Two blinks whose open readings are 3 frames apart: the detector counts one, the
  detector of the specification two. A reading at an average EAR of exactly 0.25 after
  two closed ones: not open for the detector, open for that of the specification. And
  two readings at exactly the number 0.18 before an open one: not closed for the
  detector, closed for that of the specification.
\<close>

theorem C6_counterexample:
  "blinkCount (blinkRun exact64 createBlinkDetector
      [(shut, 1), (shut, 2), (wide, 3), (shut, 4), (shut, 5), (wide, 6)]) = 1
   \<and> blinkCount (specBlinkRun exact64 createBlinkDetector
      [(shut, 1), (shut, 2), (wide, 3), (shut, 4), (shut, 5), (wide, 6)]) = 2
   \<and> blinkCount (blinkRun exact64 createBlinkDetector [(shut, 1), (shut, 2), (quarter, 3)]) = 0
   \<and> blinkCount (specBlinkRun exact64 createBlinkDetector [(shut, 1), (shut, 2), (quarter, 3)]) = 1
   \<and> blinkCount (blinkRun exact64 createBlinkDetector [(edge18, 1), (edge18, 2), (wide, 7)]) = 0
   \<and> blinkCount (specBlinkRun exact64 createBlinkDetector [(edge18, 1), (edge18, 2), (wide, 7)]) = 1"
proof -
  have d: "0 < d018" "d018 < 1/4" "d018 < 1/2"
    by (simp_all add: d018_def)
  show ?thesis
    using d
    by (simp add: blinkUpdate_def specBlinkUpdate_def Let_def avgEAR_concrete exact64_ops
          createBlinkDetector_def BLINK_DEBOUNCE_FRAMES_def EAR_CLOSED_THRESHOLD_def
          EAR_OPEN_THRESHOLD_def)
qed

subsection \<open>Head turn\<close>




subsection \<open>Smile detector\<close>

lemma smileRun_invalid:
  "\<forall>lm \<in> set lms. getMouthWidth A lm = None \<Longrightarrow>
   smileRun A st lms = replicate (length lms) False"
  by (induction lms arbitrary: st) (auto simp: smileUpdate_def)

lemma smileRun_invalid_append:
  "\<forall>lm \<in> set pre. getMouthWidth A lm = None \<Longrightarrow>
   smileRun A st (pre @ lms) = replicate (length pre) False @ smileRun A st lms"
  by (induction pre arbitrary: st) (auto simp: smileUpdate_def)

lemma smileRun_baseline:
  "smileRun A \<lparr>neutralMouthWidth = Some n\<rparr> lms
     = map (\<lambda>lm. case getMouthWidth A lm of None \<Rightarrow> False
                  | Some w \<Rightarrow> n_ge A (n_div A w n) (n_lit A ''1.15'')) lms"
  by (induction lms)
     (auto simp: smileUpdate_def SMILE_EXPANSION_RATIO_def Let_def split: option.splits)

text \<open>
  C8. A smile detector is fresh when made and after \<^verbatim>\<open>reset\<close>, that is, at the start of
  every attempt. In every sequence of readings fed to a fresh detector: it returns
  false on every reading without a valid mouth width and on the first valid one, whose
  width \<open>n\<close> becomes the baseline for the rest of the attempt; on every later valid
  reading of width \<open>w\<close> it returns whether, in the arithmetic of the program, \<open>w / n\<close> is
  at least 1.15; and when no reading is valid it never returns true.
\<close>

theorem C8_smile_baseline:
  assumes "\<forall>lm \<in> set pre. getMouthWidth A lm = None"
      and "getMouthWidth A lm0 = Some n"
  shows "smileDetector (reset rn) = createSmileDetector
       \<and> smileRun A createSmileDetector (pre @ lm0 # rest)
           = replicate (length pre + 1) False
             @ map (\<lambda>lm. case getMouthWidth A lm of None \<Rightarrow> False
                          | Some w \<Rightarrow> n_ge A (n_div A w n) (n_lit A ''1.15'')) rest
       \<and> smileRun A createSmileDetector pre = replicate (length pre) False"
proof (intro conjI)
  show "smileDetector (reset rn) = createSmileDetector"
    by (rule reset_fresh)
  have "smileRun A createSmileDetector (lm0 # rest)
          = False # smileRun A \<lparr>neutralMouthWidth = Some n\<rparr> rest"
    using assms(2) by (simp add: smileUpdate_def createSmileDetector_def)
  then show "smileRun A createSmileDetector (pre @ lm0 # rest)
           = replicate (length pre + 1) False
             @ map (\<lambda>lm. case getMouthWidth A lm of None \<Rightarrow> False
                          | Some w \<Rightarrow> n_ge A (n_div A w n) (n_lit A ''1.15'')) rest"
    using smileRun_invalid_append[OF assms(1)]
    by (simp add: smileRun_baseline replicate_append_same)
  show "smileRun A createSmileDetector pre = replicate (length pre) False"
    by (rule smileRun_invalid[OF assms(1)])
qed

lemma getMouthWidth_face: "getMouthWidth exact64 (face h n w) = Some \<bar>w\<bar>"
  by (simp add: getMouthWidth_def face_def mouthOf_def MOUTH_CORNER_LEFT_def
        MOUTH_CORNER_RIGHT_def exact64_ops)

lemma getMouthWidth_noMouth: "getMouthWidth exact64 noMouth = None"
  by (simp add: getMouthWidth_def noMouth_def face_def widthFromPositions_def)

text \<open>
  A baseline of 2, then widths 2.25, none, the binary64 number 2.3 (whose half is
  exactly the binary64 number 1.15) and 4.
\<close>

theorem C8_smile_baseline_witness:
  "getMouthWidth exact64 noMouth = None
   \<and> getMouthWidth exact64 (face 1 50 2) = Some 2
   \<and> smileRun exact64 createSmileDetector
        ([noMouth] @ face 1 50 2 # [face 1 50 (9/4), noMouth, face 1 50 (2 * d115), face 1 50 4])
       = [False, False, False, False, True, True]
   \<and> smileRun exact64 createSmileDetector [noMouth] = [False]"
proof -
  have h1: "\<forall>lm \<in> set [noMouth]. getMouthWidth exact64 lm = None"
    by (simp add: getMouthWidth_noMouth)
  have h2: "getMouthWidth exact64 (face 1 50 2) = Some 2"
    by (simp add: getMouthWidth_face)
  have m: "map (\<lambda>lm. case getMouthWidth exact64 lm of None \<Rightarrow> False
                     | Some w \<Rightarrow> n_ge exact64 (n_div exact64 w 2) (n_lit exact64 ''1.15''))
             [face 1 50 (9/4), noMouth, face 1 50 (2 * d115), face 1 50 4]
           = [False, False, True, True]"
    by (simp add: getMouthWidth_face getMouthWidth_noMouth exact64_ops d115_def)
  have r: "replicate (length [noMouth] + 1) False = [False, False]"
    by simp
  note C = C8_smile_baseline[OF h1 h2, of "createChallengeRunner :: real runner"
        "[face 1 50 (9/4), noMouth, face 1 50 (2 * d115), face 1 50 4]"]
  from C[unfolded m r] have a: "smileRun exact64 createSmileDetector
        ([noMouth] @ face 1 50 2 # [face 1 50 (9/4), noMouth, face 1 50 (2 * d115), face 1 50 4])
       = [False, False, False, False, True, True]"
    by (simp del: smileRun.simps)
  from C have b: "smileRun exact64 createSmileDetector [noMouth] = [False]"
    by (simp del: smileRun.simps)
  show ?thesis
    using h2 a b getMouthWidth_noMouth by blast
qed

section \<open>Properties of the detection loop\<close>

lemma afterSuccess_append:
  "count_list as OnSuccess = 0 \<Longrightarrow> afterSuccess (as @ bs) = afterSuccess bs"
  by (induction as) (auto split: if_splits)

lemma count_snoc: "count_list (as @ [a]) x = count_list as x + (if a = x then 1 else 0)"
  by (induction as) auto

text \<open>A loop made for a status other than detecting never calls the provider.\<close>

lemma idle_loop:
  "i < length (loops c) \<Longrightarrow> l_status (loops c ! i) \<noteq> ''detecting'' \<Longrightarrow>
   runDetection_frame i now c = c"
  by (simp add: runDetection_frame_def Let_def)

text \<open>A loop that has finished or has been cancelled takes no further part.\<close>

lemma stopped_loop:
  "i < length (loops c) \<Longrightarrow> phase (loops c ! i) = Finished \<or> phase (loops c ! i) = Cancelled \<Longrightarrow>
   runDetection_frame i now c = c \<and> runDetection_resolved A ct i det c = c
     \<and> runDetection_rejected i c = c"
  by (auto simp: runDetection_frame_def runDetection_resolved_def runDetection_rejected_def)

subsection \<open>Runs of the first loop alone\<close>

lemma frame_undisturbed:
  assumes "undisturbed c"
  shows "undisturbed (runDetection_frame i now c)"
proof (cases "i < length (loops c) \<and> phase (loops c ! i) = Scheduled")
  case False
  then have "runDetection_frame i now c = c"
    by (auto simp: runDetection_frame_def)
  then show ?thesis using assms by simp
next
  case True
  show ?thesis
  proof (cases "ui_status c = ''detecting''")
    case d: True
    with assms True have i: "i = 0" and l: "length (loops c) = 1"
      by (auto simp: undisturbed_def)
    show ?thesis
      using assms d True i l
      by (auto simp: undisturbed_def runDetection_frame_def Let_def count_snoc)
  next
    case nd: False
    with assms have s: "ui_status c = ''success''" "length (loops c) = 2"
      "phase (loops c ! 0) = Finished" "l_status (loops c ! 1) = ''success''"
      by (auto simp: undisturbed_def)
    with True have "i = 1"
      by (cases i) auto
    with s show ?thesis using assms by (simp add: runDetection_frame_def Let_def)
  qed
qed

lemma rejected_undisturbed:
  assumes "undisturbed c"
  shows "undisturbed (runDetection_rejected i c)"
proof (cases "i < length (loops c) \<and> phase (loops c ! i) = Awaiting")
  case False
  then have "runDetection_rejected i c = c"
    by (auto simp: runDetection_rejected_def)
  then show ?thesis using assms by simp
next
  case True
  with assms have "ui_status c = ''detecting''" "i = 0" "length (loops c) = 1"
    by (auto simp: undisturbed_def less_Suc_eq numeral_2_eq_2)
  with assms True show ?thesis
    by (auto simp: undisturbed_def runDetection_rejected_def)
qed

lemma resolved_undisturbed:
  assumes "undisturbed c"
  shows "undisturbed (runDetection_resolved A ct i det c)"
proof (cases "i < length (loops c) \<and> phase (loops c ! i) = Awaiting")
  case False
  then have "runDetection_resolved A ct i det c = c"
    by (auto simp: runDetection_resolved_def)
  then show ?thesis using assms by simp
next
  case True
  with assms have d: "ui_status c = ''detecting''" "i = 0" "length (loops c) = 1"
    "l_status (loops c ! 0) = ''detecting''" "count_list (actions c) OnSuccess = 0"
    by (auto simp: undisturbed_def less_Suc_eq numeral_2_eq_2)
  from d(3) obtain l where l: "loops c = [l]"
    by (cases "loops c") auto
  from True d(2) l have a: "phase l = Awaiting"
    by simp
  show ?thesis
  proof (cases det)
    case None
    with d l a show ?thesis
      by (simp add: undisturbed_def runDetection_resolved_def)
  next
    case (Some dt)
    obtain result rn where r: "run A ct (runnerRef c) dt (frameRef c) = (result, rn)"
      by (cases "run A ct (runnerRef c) dt (frameRef c)")
    show ?thesis
      using d l a Some r
      by (simp add: undisturbed_def runDetection_resolved_def Let_def setStatus_def count_snoc
            afterSuccess_append)
  qed
qed

lemma handle_undisturbed:
  "undisturbed c \<Longrightarrow> loopEvent ev \<Longrightarrow> undisturbed (handle A ch c ev)"
  by (cases ev) (simp_all add: frame_undisturbed resolved_undisturbed rejected_undisturbed)

lemma runEvents_undisturbed:
  "undisturbed c \<Longrightarrow> list_all loopEvent evs \<Longrightarrow> undisturbed (runEvents A ch c evs)"
  unfolding runEvents_def
  by (induction evs arbitrary: c) (simp_all add: handle_undisturbed)

text \<open>
  As long as neither the countdown nor a click intervenes, the success callback is
  called at most once and nothing is done after it: no call of the provider and no run
  of a detector.
\<close>

lemma first_loop_success_terminal:
  assumes "list_all loopEvent evs"
  shows "count_list (actions (runEvents A ch (mount ch) evs)) OnSuccess \<le> 1
       \<and> afterSuccess (actions (runEvents A ch (mount ch) evs)) = []"
proof -
  have "undisturbed (mount ch)"
    by (simp add: undisturbed_def mount_def)
  from runEvents_undisturbed[OF this assms, of A ch] show ?thesis
    using afterSuccess_append[of "actions (runEvents A ch (mount ch) evs)" "[]"]
    by (auto simp: undisturbed_def)
qed

subsection \<open>A loop that outlives its effect\<close>

lemma head_straight: "\<not> checkHeadTurnLeft exact64 (face 1 128 40) box256"
  by (simp add: checkHeadTurnLeft_def face_def box256_def noseTip_def Let_def
        HEAD_TURN_THRESHOLD_RATIO_def exact64_ops d012_def)

lemma head_turned: "checkHeadTurnLeft exact64 (face 1 168 40) box256"
  by (simp add: checkHeadTurnLeft_def face_def box256_def noseTip_def Let_def
        HEAD_TURN_THRESHOLD_RATIO_def exact64_ops d012_def)

lemma run_straight:
  "run exact64 ''head_left'' rn straight f = (\<lparr>passed = False, progress = 0, required = Some 1\<rparr>, rn)"
  by (simp add: run_def straight_def head_straight)

lemma run_turned:
  "run exact64 ''head_left'' rn turned f = (\<lparr>passed = True, progress = 1, required = Some 1\<rparr>, rn)"
  by (simp add: run_def turned_def head_turned)

text \<open>
  C9. The countdown reaches zero while the first loop waits for the landmark provider.
  The cleanup of the effect finds no pending callback to cancel, and when the provider
  answers, the loop, whose \<^verbatim>\<open>status\<close> is still the \<open>detecting\<close> of its render, asks for
  the next frame. After Try Again a second detecting loop runs beside it. The second
  loop passes the challenge: the status is \<open>success\<close> and the success callback has been
  called. The first loop then calls the provider again, runs the detector again and
  calls the success callback a second time.
\<close>

theorem C9_stale_loop_after_success:
  "ui_status (runEvents exact64 headLeft (mount headLeft) (take 13 timeoutThenRetry)) = ''success''
   \<and> actions (runEvents exact64 headLeft (mount headLeft) (take 13 timeoutThenRetry))
       = [ProviderCall 0, DetectorRun 0, ProviderCall 0, DetectorRun 0, OnRetry,
          ProviderCall 2, DetectorRun 2, OnSuccess]
   \<and> map phase (loops (runEvents exact64 headLeft (mount headLeft) (take 13 timeoutThenRetry)))
       = [Scheduled, Cancelled, Finished, Scheduled]
   \<and> actions (runEvents exact64 headLeft (mount headLeft) timeoutThenRetry)
       = [ProviderCall 0, DetectorRun 0, ProviderCall 0, DetectorRun 0, OnRetry,
          ProviderCall 2, DetectorRun 2, OnSuccess,
          ProviderCall 0, DetectorRun 0, OnSuccess]
   \<and> afterSuccess (actions (runEvents exact64 headLeft (mount headLeft) timeoutThenRetry))
       = [ProviderCall 0, DetectorRun 0, OnSuccess]
   \<and> count_list (actions (runEvents exact64 headLeft (mount headLeft) timeoutThenRetry)) OnSuccess = 2"
  by (simp add: runEvents_def timeoutThenRetry_def mount_def headLeft_def tick_def setStatus_def
        runDetection_frame_def runDetection_resolved_def handleRetry_def run_straight run_turned
        CHALLENGE_TIMEOUT_SEC_def DETECTION_INTERVAL_MS_def required0_def Let_def)

end
